theory Spec2Isabelle
  imports Complex_Main
begin

section \<open>The training and evaluation controller of sympa (\<^verbatim>\<open>src/sympa/runner.py\<close>)\<close>

text \<open>
  The class \<^verbatim>\<open>Runner\<close> drives a model, an optimizer, a scheduler, a loss, two metrics and
  a telemetry writer. None of these collaborators is part of the file; they are taken as
  parameters (the record \<open>collab\<close>). Everything the runner does to the outside world
  (telemetry, checkpoints, the results file, calls that mutate the optimizer) is written,
  in program order, to a trace of events carried by the state.

  Python floats that the collaborators produce are taken to be finite and are modelled
  as reals: rounding is not modelled. The only non-finite float that the runner itself
  creates is \<^verbatim>\<open>float("inf")\<close>, the initial best distortion. Python integers are \<open>int\<close>;
  \<^verbatim>\<open>%\<close> on integers is \<open>mod\<close> on \<open>int\<close> (both take the sign of the divisor) and raises
  \<^verbatim>\<open>ZeroDivisionError\<close> on a zero divisor.
\<close>

subsection \<open>Values, errors, configuration\<close>

datatype pyfloat = Finite real | PosInf

text \<open>\<^verbatim>\<open>distortion < best_distortion\<close> (line 53), for a finite \<^verbatim>\<open>distortion\<close>.\<close>

fun float_lt :: "real \<Rightarrow> pyfloat \<Rightarrow> bool" where
  "float_lt d (Finite b) = (d < b)"
| "float_lt d PosInf = True"

datatype error =
    AssertionError string
  | ZeroDivisionError
  | StatisticsError
  | IndexError
  | StateDictError

type_synonym row = "real list"
type_synonym batch = "row list"

text \<open>The options of \<^verbatim>\<open>self.args\<close> that the runner reads.\<close>

record args =
  epochs :: int
  save_epochs :: int
  val_every :: int
  patience :: int
  grad_accum_steps :: int
  max_grad_norm :: real
  run_id :: string
  args_model :: string
  dims :: int
  data :: string
  results_file :: string

text \<open>The dictionary that \<^verbatim>\<open>export_results\<close> hands to \<^verbatim>\<open>write_results_to_file\<close>.\<close>

record result_data =
  res_data :: string
  res_dims :: int
  res_manifold :: string
  res_run_id :: string
  res_distortion :: real
  res_mAP :: real

subsection \<open>Events\<close>

text \<open>
  One constructor for each effect of the runner. \<open>Validated\<close> is auxiliary: it records
  the evaluation pass of line 47 (the epoch, the model state that was evaluated and the
  distortion it gave), so that the history of validations can be read off a trace. The
  program never reads the trace.
\<close>

datatype ('p, 'n) event =
    ManifoldCheck
  | ModelZeroGrad
  | OptimizerZeroGrad
  | LossComputed real
  | Backward
  | ClipGradNorm real
  | OptimizerStep
  | Scalar string real int
  | SaveModel string 'p 'n
  | Validated int real 'p
  | LogResults int real real
  | SchedulerStep real
  | BestVal real int
  | EarlyStop int
  | LoadStateDict 'p
  | ExportResults string result_data
  | LogFinal real real
  | WriterClose

subsection \<open>Collaborators and state\<close>

text \<open>
  \<open>'p\<close> is the state of the model (what \<^verbatim>\<open>state_dict()\<close> copies and \<^verbatim>\<open>load_state_dict\<close>
  restores), \<open>'g\<close> the accumulated gradients, \<open>'o\<close> the state of the optimizer and of the
  scheduler. \<open>forward\<close> takes the mode flag set by \<^verbatim>\<open>model.train()\<close> and \<^verbatim>\<open>model.eval()\<close>.
  \<open>backward\<close> is \<^verbatim>\<open>loss.backward()\<close> for the loss of a batch divided by
  \<^verbatim>\<open>grad_accum_steps\<close>: it adds to the gradients and changes nothing else.
  \<open>zero_grad\<close> is the value of the gradients after \<^verbatim>\<open>zero_grad()\<close>. \<open>get_lr\<close> is the
  learning rate of the first parameter group.
\<close>

record ('p, 'g, 'o) collab =
  forward :: "bool \<Rightarrow> 'p \<Rightarrow> batch \<Rightarrow> real list"
  calculate_loss :: "real list \<Rightarrow> real list \<Rightarrow> real"
  backward :: "bool \<Rightarrow> 'p \<Rightarrow> batch \<Rightarrow> int \<Rightarrow> 'g \<Rightarrow> 'g"
  grad_norm :: "'g \<Rightarrow> real"
  clip_grad_norm :: "real \<Rightarrow> 'g \<Rightarrow> 'g"
  optimizer_step :: "'o \<Rightarrow> 'g \<Rightarrow> 'p \<Rightarrow> 'o \<times> 'p"
  zero_grad :: "'g"
  scheduler_step :: "real \<Rightarrow> 'o \<Rightarrow> 'o"
  get_lr :: "'o \<Rightarrow> real"
  embeds_norm_mean :: "'p \<Rightarrow> real"
  projected_points :: "('p \<Rightarrow> real) option"
  check_all_points :: "'p \<Rightarrow> bool \<times> string \<times> string"
  calculate_metric :: "real list \<Rightarrow> real list \<Rightarrow> real list"
  mAP_metric :: "real list list \<Rightarrow> real"

text \<open>
  The fields set by \<^verbatim>\<open>__init__\<close> that do not change: the node index map (\<open>id2node\<close>,
  with its number of entries), the batches that iterating \<^verbatim>\<open>self.train\<close> yields in a
  given epoch (the sampler is random, so they depend on the epoch) and the batches of
  \<^verbatim>\<open>self.validate\<close>. \<^verbatim>\<open>len(train_split)\<close> is the number of batches.
\<close>

record 'n runner =
  id2node :: 'n
  num_nodes :: nat
  train :: "int \<Rightarrow> batch list"
  validate :: "batch list"

record ('p, 'g, 'o, 'n) state =
  model :: 'p
  training :: bool
  grad :: 'g
  opt :: 'o
  trace :: "('p, 'n) event list"

definition emit :: "('p, 'n) event list \<Rightarrow> ('p, 'g, 'o, 'n) state \<Rightarrow> ('p, 'g, 'o, 'n) state" where
  "emit evs s = s\<lparr>trace := trace s @ evs\<rparr>"

subsection \<open>\<^verbatim>\<open>check_points_in_manifold\<close> (lines 151-155)\<close>

definition violation_message :: "string \<Rightarrow> string \<Rightarrow> string" where
  "violation_message reason outside_point =
     ''Point outside manifold. Reason: '' @ reason @ [CHR 0x0A] @ outside_point"

definition check_points_in_manifold ::
  "('p, 'g, 'o) collab \<Rightarrow> ('p, 'g, 'o, 'n) state \<Rightarrow> (error \<times> ('p, 'g, 'o, 'n) state) + ('p, 'g, 'o, 'n) state" where
  "check_points_in_manifold C s =
     (case check_all_points C (model s) of
        (all_points_ok, outside_point, reason) \<Rightarrow>
          if \<not> all_points_ok
          then Inl (AssertionError (violation_message reason outside_point), emit [ManifoldCheck] s)
          else Inr (emit [ManifoldCheck] s))"

subsection \<open>\<^verbatim>\<open>train_epoch\<close> (lines 75-107)\<close>

text \<open>\<^verbatim>\<open>batch_points[:, -1]\<close>: the last column; a tensor with no column raises.\<close>

definition last_column :: "batch \<Rightarrow> error + real list" where
  "last_column b = (if [] \<in> set b then Inl IndexError else Inr (map last b))"

text \<open>
  The body of the loop of line 83, for the batch at index \<open>step\<close>. The accumulators are
  \<^verbatim>\<open>tr_loss\<close> and \<^verbatim>\<open>avg_grad_norm\<close>. The tensor division of line 90 does not raise; the
  \<^verbatim>\<open>%\<close> of line 100 does when \<^verbatim>\<open>grad_accum_steps\<close> is 0.
\<close>

definition batch_body ::
  "('p, 'g, 'o) collab \<Rightarrow> args \<Rightarrow> nat \<Rightarrow> batch \<Rightarrow> real \<times> real \<times> ('p, 'g, 'o, 'n) state
     \<Rightarrow> (error \<times> ('p, 'g, 'o, 'n) state) + (real \<times> real \<times> ('p, 'g, 'o, 'n) state)" where
  "batch_body C A step batch_points acc =
     (case acc of (tr_loss, avg_grad_norm, s) \<Rightarrow>
        let manifold_distances = forward C (training s) (model s) batch_points in
        case last_column batch_points of
          Inl e \<Rightarrow> Inl (e, s)
        | Inr graph_distances \<Rightarrow>
            let loss0 = calculate_loss C graph_distances manifold_distances;
                loss = loss0 / real_of_int (grad_accum_steps A);
                s1 = emit [LossComputed loss0, Backward]
                       (s\<lparr>grad := backward C (training s) (model s) batch_points (grad_accum_steps A) (grad s)\<rparr>);
                tr_loss' = tr_loss + loss;
                avg_grad_norm' = avg_grad_norm + grad_norm C (grad s1)
            in if grad_accum_steps A = 0 then Inl (ZeroDivisionError, s1)
               else if (int step + 1) mod grad_accum_steps A = 0 then
                 let clipped = clip_grad_norm C (max_grad_norm A) (grad s1);
                     stepped = optimizer_step C (opt s1) clipped (model s1)
                 in Inr (tr_loss', avg_grad_norm',
                         emit [ClipGradNorm (max_grad_norm A), OptimizerStep, ModelZeroGrad, OptimizerZeroGrad]
                           (s1\<lparr>model := snd stepped, opt := fst stepped, grad := zero_grad C\<rparr>))
               else Inr (tr_loss', avg_grad_norm', s1))"

fun batch_loop ::
  "('p, 'g, 'o) collab \<Rightarrow> args \<Rightarrow> nat \<Rightarrow> batch list \<Rightarrow> real \<times> real \<times> ('p, 'g, 'o, 'n) state
     \<Rightarrow> (error \<times> ('p, 'g, 'o, 'n) state) + (real \<times> real \<times> ('p, 'g, 'o, 'n) state)" where
  "batch_loop C A step [] acc = Inr acc"
| "batch_loop C A step (b # bs) acc =
     (case batch_body C A step b acc of
        Inl e \<Rightarrow> Inl e
      | Inr acc' \<Rightarrow> batch_loop C A (Suc step) bs acc')"

definition train_epoch ::
  "('p, 'g, 'o) collab \<Rightarrow> args \<Rightarrow> batch list \<Rightarrow> int \<Rightarrow> ('p, 'g, 'o, 'n) state
     \<Rightarrow> (error \<times> ('p, 'g, 'o, 'n) state) + (real \<times> ('p, 'g, 'o, 'n) state)" where
  "train_epoch C A train_split epoch_num s =
     (case check_points_in_manifold C s of
        Inl e \<Rightarrow> Inl e
      | Inr s0 \<Rightarrow>
          let s1 = emit [ModelZeroGrad, OptimizerZeroGrad] (s0\<lparr>training := True, grad := zero_grad C\<rparr>) in
          case batch_loop C A 0 train_split (0, 0, s1) of
            Inl e \<Rightarrow> Inl e
          | Inr (tr_loss, avg_grad_norm, s2) \<Rightarrow>
              if length train_split = 0 then Inl (ZeroDivisionError, s2)
              else Inr (tr_loss / real (length train_split),
                        emit [Scalar ''grad_norm/avg'' (avg_grad_norm / real (length train_split)) epoch_num] s2))"

subsection \<open>\<^verbatim>\<open>evaluate\<close> (lines 109-121)\<close>

fun eval_loop :: "('p, 'g, 'o) collab \<Rightarrow> 'p \<Rightarrow> batch list \<Rightarrow> real list \<Rightarrow> error + real list" where
  "eval_loop C p [] total_distortion = Inr total_distortion"
| "eval_loop C p (batch_points # bs) total_distortion =
     (let manifold_distances = forward C False p batch_points in
      case last_column batch_points of
        Inl e \<Rightarrow> Inl e
      | Inr graph_distances \<Rightarrow>
          eval_loop C p bs (total_distortion @ calculate_metric C graph_distances manifold_distances))"

text \<open>\<^verbatim>\<open>statistics.mean\<close>: raises on an empty list.\<close>

definition mean :: "real list \<Rightarrow> error + real" where
  "mean xs = (if xs = [] then Inl StatisticsError else Inr (sum_list xs / real (length xs)))"

definition evaluate ::
  "('p, 'g, 'o) collab \<Rightarrow> batch list \<Rightarrow> ('p, 'g, 'o, 'n) state
     \<Rightarrow> (error \<times> ('p, 'g, 'o, 'n) state) + (real \<times> ('p, 'g, 'o, 'n) state)" where
  "evaluate C eval_split s =
     (let s1 = s\<lparr>training := False\<rparr> in
      case eval_loop C (model s1) eval_split [] of
        Inl e \<Rightarrow> Inl (e, s1)
      | Inr total_distortion \<Rightarrow>
          (case mean total_distortion of
             Inl e \<Rightarrow> Inl (e, s1)
           | Inr avg_distortion \<Rightarrow> Inr (avg_distortion, s1)))"

subsection \<open>\<^verbatim>\<open>calculate_mAP\<close> and \<^verbatim>\<open>build_distance_matrix\<close> (lines 123-138)\<close>

text \<open>Row \<open>node_id\<close> of the matrix is the model's output on the pairs \<open>(node_id, j)\<close>.\<close>

definition build_distance_matrix :: "('p, 'g, 'o) collab \<Rightarrow> 'n runner \<Rightarrow> 'p \<Rightarrow> real list list" where
  "build_distance_matrix C R p =
     map (\<lambda>node_id. forward C False p (map (\<lambda>j. [real node_id, real j]) [0..<num_nodes R]))
       [0..<num_nodes R]"

definition calculate_mAP ::
  "('p, 'g, 'o) collab \<Rightarrow> 'n runner \<Rightarrow> ('p, 'g, 'o, 'n) state \<Rightarrow> real \<times> ('p, 'g, 'o, 'n) state" where
  "calculate_mAP C R s =
     (let s1 = s\<lparr>training := False\<rparr>;
          distance_matrix = build_distance_matrix C R (model s1)
      in (mAP_metric C distance_matrix, s1))"

subsection \<open>\<^verbatim>\<open>save_model\<close> (lines 140-144)\<close>

text \<open>\<^verbatim>\<open>str\<close> of an integer, as the f-string of line 142 formats the epoch.\<close>

fun show_nat :: "nat \<Rightarrow> string" where
  "show_nat n = (if n < 10 then [''0123456789'' ! n]
                 else show_nat (n div 10) @ [''0123456789'' ! (n mod 10)])"

declare show_nat.simps [simp del]

definition show_int :: "int \<Rightarrow> string" where
  "show_int i = (if i < 0 then CHR ''-'' # show_nat (nat (- i)) else show_nat (nat i))"

definition checkpoint_key :: "args \<Rightarrow> int \<Rightarrow> string" where
  "checkpoint_key A epoch = run_id A @ ''-best-'' @ show_int epoch @ ''ep''"

definition save_model ::
  "args \<Rightarrow> 'n runner \<Rightarrow> int \<Rightarrow> ('p, 'g, 'o, 'n) state \<Rightarrow> ('p, 'g, 'o, 'n) state" where
  "save_model A R epoch s = emit [SaveModel (checkpoint_key A epoch) (model s) (id2node R)] s"

subsection \<open>\<^verbatim>\<open>export_results\<close> (lines 157-164)\<close>

definition export_record :: "args \<Rightarrow> real \<Rightarrow> real \<Rightarrow> result_data" where
  "export_record A avg_distortion avg_precision =
     (let manifold = args_model A;
          d = dims A;
          d' = (if manifold = ''upper'' \<or> manifold = ''bounded'' then d * (d + 1) else d)
      in \<lparr>res_data = data A, res_dims = d', res_manifold = manifold, res_run_id = run_id A,
          res_distortion = avg_distortion * 100, res_mAP = avg_precision * 100\<rparr>)"

definition export_results ::
  "args \<Rightarrow> real \<Rightarrow> real \<Rightarrow> ('p, 'g, 'o, 'n) state \<Rightarrow> ('p, 'g, 'o, 'n) state" where
  "export_results A avg_distortion avg_precision s =
     emit [ExportResults (results_file A) (export_record A avg_distortion avg_precision)] s"

subsection \<open>\<^verbatim>\<open>run\<close> (lines 31-73)\<close>

text \<open>The local variables of \<^verbatim>\<open>run\<close> that survive an iteration of the epoch loop.\<close>

record 'p best =
  best_distortion :: pyfloat
  best_epoch :: int
  best_model_state :: "'p option"

definition initial_best :: "'p best" where
  "initial_best = \<lparr>best_distortion = PosInf, best_epoch = - 1, best_model_state = None\<rparr>"

datatype flow = Continue | Break

text \<open>Lines 37-41: the telemetry written after the training pass of an epoch.\<close>

definition train_scalars ::
  "('p, 'g, 'o) collab \<Rightarrow> real \<Rightarrow> int \<Rightarrow> ('p, 'g, 'o, 'n) state \<Rightarrow> ('p, 'n) event list" where
  "train_scalars C train_loss epoch s =
     [Scalar ''train/loss'' train_loss epoch,
      Scalar ''train/lr'' (get_lr C (opt s)) epoch,
      Scalar ''embeds/avg_norm'' (embeds_norm_mean C (model s)) epoch]
     @ (case projected_points C of
          None \<Rightarrow> []
        | Some counter \<Rightarrow> [Scalar ''train/projected_points'' (counter (model s)) epoch])"

text \<open>Lines 46-62: the validation block, entered when \<^verbatim>\<open>epoch % val_every == 0\<close>.\<close>

definition validation_block ::
  "('p, 'g, 'o) collab \<Rightarrow> args \<Rightarrow> 'n runner \<Rightarrow> int \<Rightarrow> real \<Rightarrow> 'p best \<times> ('p, 'g, 'o, 'n) state
     \<Rightarrow> (error \<times> ('p, 'g, 'o, 'n) state) + (flow \<times> 'p best \<times> ('p, 'g, 'o, 'n) state)" where
  "validation_block C A R epoch train_loss bs =
     (case bs of (bv, s) \<Rightarrow>
        case evaluate C (validate R) s of
          Inl e \<Rightarrow> Inl e
        | Inr (distortion, s1) \<Rightarrow>
            let s2 = emit [Validated epoch distortion (model s1),
                           Scalar ''val/distortion'' distortion epoch,
                           LogResults epoch train_loss (distortion * 100),
                           SchedulerStep distortion]
                       (s1\<lparr>opt := scheduler_step C distortion (opt s1)\<rparr>);
                improved = float_lt distortion (best_distortion bv);
                bv' = (if improved
                       then \<lparr>best_distortion = Finite distortion, best_epoch = epoch,
                             best_model_state = Some (model s2)\<rparr>
                       else bv);
                s3 = (if improved then emit [BestVal (distortion * 100) epoch] s2 else s2)
            in if epoch - best_epoch bv' \<ge> patience A * 3
               then Inr (Break, bv', emit [EarlyStop epoch] s3)
               else Inr (Continue, bv', s3))"

text \<open>Lines 35-62: one iteration of the epoch loop.\<close>

definition epoch_body ::
  "('p, 'g, 'o) collab \<Rightarrow> args \<Rightarrow> 'n runner \<Rightarrow> int \<Rightarrow> 'p best \<times> ('p, 'g, 'o, 'n) state
     \<Rightarrow> (error \<times> ('p, 'g, 'o, 'n) state) + (flow \<times> 'p best \<times> ('p, 'g, 'o, 'n) state)" where
  "epoch_body C A R epoch bs =
     (case bs of (bv, s) \<Rightarrow>
        case train_epoch C A (train R epoch) epoch s of
          Inl e \<Rightarrow> Inl e
        | Inr (train_loss, s1) \<Rightarrow>
            let s2 = emit (train_scalars C train_loss epoch s1) s1 in
            if save_epochs A = 0 then Inl (ZeroDivisionError, s2)
            else
              let s3 = (if epoch mod save_epochs A = 0 then save_model A R epoch s2 else s2) in
              if val_every A = 0 then Inl (ZeroDivisionError, s3)
              else if epoch mod val_every A = 0
                then validation_block C A R epoch train_loss (bv, s3)
                else Inr (Continue, bv, s3))"

text \<open>Line 34: \<^verbatim>\<open>for epoch in trange(1, self.args.epochs + 1)\<close>, from the epoch \<open>epoch\<close> on.\<close>

function epoch_loop ::
  "('p, 'g, 'o) collab \<Rightarrow> args \<Rightarrow> 'n runner \<Rightarrow> int \<Rightarrow> 'p best \<times> ('p, 'g, 'o, 'n) state
     \<Rightarrow> (error \<times> ('p, 'g, 'o, 'n) state) + ('p best \<times> ('p, 'g, 'o, 'n) state)" where
  "epoch_loop C A R epoch bs =
     (if epoch > epochs A then Inr bs
      else case epoch_body C A R epoch bs of
             Inl e \<Rightarrow> Inl e
           | Inr (Break, bs') \<Rightarrow> Inr bs'
           | Inr (Continue, bs') \<Rightarrow> epoch_loop C A R (epoch + 1) bs')"
  by pat_completeness auto
termination
  by (relation "measure (\<lambda>(C, A, R, epoch, bs). nat (epochs A + 1 - epoch))") auto

declare epoch_loop.simps [simp del]

text \<open>
  Lines 64-73. \<^verbatim>\<open>load_state_dict(None)\<close> raises inside the model (the runner has no
  check of its own): that exception is \<open>StateDictError\<close>.
\<close>

definition finalize ::
  "('p, 'g, 'o) collab \<Rightarrow> args \<Rightarrow> 'n runner \<Rightarrow> 'p best \<times> ('p, 'g, 'o, 'n) state
     \<Rightarrow> (error \<times> ('p, 'g, 'o, 'n) state) + ('p, 'g, 'o, 'n) state" where
  "finalize C A R bs =
     (case bs of (bv, s) \<Rightarrow>
        case best_model_state bv of
          None \<Rightarrow> Inl (StateDictError, s)
        | Some p \<Rightarrow>
            (case evaluate C (validate R) (emit [LoadStateDict p] (s\<lparr>model := p\<rparr>)) of
               Inl e \<Rightarrow> Inl e
             | Inr (distortion, s1) \<Rightarrow>
                 (case calculate_mAP C R s1 of
                    (precision, s2) \<Rightarrow>
                      Inr (emit [WriterClose]
                            (save_model A R (best_epoch bv)
                              (emit [LogFinal (distortion * 100) (precision * 100)]
                                (export_results A distortion precision s2)))))))"

definition run ::
  "('p, 'g, 'o) collab \<Rightarrow> args \<Rightarrow> 'n runner \<Rightarrow> ('p, 'g, 'o, 'n) state
     \<Rightarrow> (error \<times> ('p, 'g, 'o, 'n) state) + ('p, 'g, 'o, 'n) state" where
  "run C A R s =
     (case epoch_loop C A R 1 (initial_best, s) of
        Inl e \<Rightarrow> Inl e
      | Inr bs \<Rightarrow> finalize C A R bs)"

section \<open>Reading a trace\<close>

text \<open>Each projection keeps the events of one kind, in order.\<close>

fun saved :: "('p, 'n) event \<Rightarrow> (string \<times> 'p \<times> 'n) list" where
  "saved (SaveModel k p n) = [(k, p, n)]"
| "saved _ = []"

definition saves :: "('p, 'n) event list \<Rightarrow> (string \<times> 'p \<times> 'n) list" where
  "saves evs = concat (map saved evs)"

fun validated :: "('p, 'n) event \<Rightarrow> (int \<times> real \<times> 'p) list" where
  "validated (Validated e d p) = [(e, d, p)]"
| "validated _ = []"

definition validations :: "('p, 'n) event list \<Rightarrow> (int \<times> real \<times> 'p) list" where
  "validations evs = concat (map validated evs)"

fun stopped :: "('p, 'n) event \<Rightarrow> int list" where
  "stopped (EarlyStop e) = [e]"
| "stopped _ = []"

definition early_stops :: "('p, 'n) event list \<Rightarrow> int list" where
  "early_stops evs = concat (map stopped evs)"

fun exported :: "('p, 'n) event \<Rightarrow> (string \<times> result_data) list" where
  "exported (ExportResults f r) = [(f, r)]"
| "exported _ = []"

definition exports :: "('p, 'n) event list \<Rightarrow> (string \<times> result_data) list" where
  "exports evs = concat (map exported evs)"

fun loss_of :: "('p, 'n) event \<Rightarrow> real list" where
  "loss_of (LossComputed l) = [l]"
| "loss_of _ = []"

definition losses :: "('p, 'n) event list \<Rightarrow> real list" where
  "losses evs = concat (map loss_of evs)"

text \<open>The values written to the series \<^verbatim>\<open>train/loss\<close>, with their epochs.\<close>

fun train_loss_of :: "('p, 'n) event \<Rightarrow> (int \<times> real) list" where
  "train_loss_of (Scalar tag v e) = (if tag = ''train/loss'' then [(e, v)] else [])"
| "train_loss_of _ = []"

definition train_losses :: "('p, 'n) event list \<Rightarrow> (int \<times> real) list" where
  "train_losses evs = concat (map train_loss_of evs)"

text \<open>The epochs whose training pass completed: one \<^verbatim>\<open>train/loss\<close> value each.\<close>

definition trained_epochs :: "('p, 'n) event list \<Rightarrow> int list" where
  "trained_epochs evs = map fst (train_losses evs)"

text \<open>The events of the batch loop, and those among them that act on the gradients
  or on the parameters.\<close>

fun is_batch_event :: "('p, 'n) event \<Rightarrow> bool" where
  "is_batch_event (LossComputed l) = True"
| "is_batch_event Backward = True"
| "is_batch_event (ClipGradNorm m) = True"
| "is_batch_event OptimizerStep = True"
| "is_batch_event ModelZeroGrad = True"
| "is_batch_event OptimizerZeroGrad = True"
| "is_batch_event _ = False"

fun is_update_event :: "('p, 'n) event \<Rightarrow> bool" where
  "is_update_event Backward = True"
| "is_update_event (ClipGradNorm m) = True"
| "is_update_event OptimizerStep = True"
| "is_update_event ModelZeroGrad = True"
| "is_update_event OptimizerZeroGrad = True"
| "is_update_event _ = False"

definition updates :: "('p, 'n) event list \<Rightarrow> ('p, 'n) event list" where
  "updates evs = filter is_update_event evs"

section \<open>Specifications\<close>

text \<open>The per-pair distortions of a batch, and the mean of a list.\<close>

definition pair_distortions :: "('p, 'g, 'o) collab \<Rightarrow> 'p \<Rightarrow> batch \<Rightarrow> real list" where
  "pair_distortions C p b = calculate_metric C (map last b) (forward C False p b)"

definition batch_mean :: "real list \<Rightarrow> real" where
  "batch_mean xs = sum_list xs / real (length xs)"

section \<open>A small instance\<close>

text \<open>
  A model with one real parameter, used to run the definitions on concrete inputs. The
  model predicts its parameter for every pair, the loss is the sum of the graph
  distances of the batch, the distortion of a pair is the relative error of the
  prediction, each backward
  pass adds one to the gradient and the optimizer adds the gradient to the parameter.
  A point is outside the manifold when the parameter has reached 100.
\<close>

definition toy :: "(real, real, nat) collab" where
  "toy = \<lparr>forward = (\<lambda>mode p b. map (\<lambda>r. p) b),
          calculate_loss = (\<lambda>g m. sum_list g),
          backward = (\<lambda>mode p b G g. g + 1),
          grad_norm = (\<lambda>g. \<bar>g\<bar>),
          clip_grad_norm = (\<lambda>mx g. min g mx),
          optimizer_step = (\<lambda>k g p. (Suc k, p + g)),
          zero_grad = 0,
          scheduler_step = (\<lambda>d k. k),
          get_lr = (\<lambda>k. 1),
          embeds_norm_mean = (\<lambda>p. \<bar>p\<bar>),
          projected_points = None,
          check_all_points = (\<lambda>p. (p < 100, ''[100.]'', ''norm too large'')),
          calculate_metric = (\<lambda>g m. map2 (\<lambda>a b. \<bar>b / a - 1\<bar>) g m),
          mAP_metric = (\<lambda>M. 1)\<rparr>"

definition toy_args :: args where
  "toy_args = \<lparr>epochs = 10, save_epochs = 2, val_every = 2, patience = 1, grad_accum_steps = 2,
               max_grad_norm = 5, run_id = ''r'', args_model = ''upper'', dims = 3,
               data = ''grid'', results_file = ''out.csv''\<rparr>"

definition toy_runner :: "string list runner" where
  "toy_runner = \<lparr>id2node = [''a'', ''b''], num_nodes = 2,
                 train = (\<lambda>epoch. [[[0, 1, 2]], [[1, 0, 4]]]),
                 validate = [[[0, 1, 2]], [[1, 0, 4]]]\<rparr>"

definition toy_state :: "real \<Rightarrow> (real, real, nat, string list) state" where
  "toy_state p = \<lparr>model = p, training = False, grad = 0, opt = 0, trace = []\<rparr>"

definition uneven_split :: "batch list" where
  "uneven_split = [[[0, 1, 2], [0, 2, 4]], [[1, 2, 8]]]"

text \<open>The events of the batch at index \<open>i\<close> that act on the gradients or the parameters:
  the backward pass and, when \<open>i + 1\<close> closes an accumulation window, clipping, the
  optimizer step and the zeroing of the gradients.\<close>

definition step_events :: "args \<Rightarrow> nat \<Rightarrow> ('p, 'n) event list" where
  "step_events A i =
     Backward # (if (int i + 1) mod grad_accum_steps A = 0
                 then [ClipGradNorm (max_grad_norm A), OptimizerStep, ModelZeroGrad, OptimizerZeroGrad]
                 else [])"

text \<open>The state in which the batch loop of \<^verbatim>\<open>train_epoch\<close> starts (lines 76-81).\<close>

definition epoch_start :: "('p, 'g, 'o) collab \<Rightarrow> ('p, 'g, 'o, 'n) state \<Rightarrow> ('p, 'g, 'o, 'n) state" where
  "epoch_start C s =
     emit [ModelZeroGrad, OptimizerZeroGrad] ((emit [ManifoldCheck] s)\<lparr>training := True, grad := zero_grad C\<rparr>)"

text \<open>The number of batches, out of \<open>n\<close>, that lie in complete accumulation windows.\<close>

definition complete_windows :: "args \<Rightarrow> nat \<Rightarrow> nat" where
  "complete_windows A n = nat (grad_accum_steps A) * (n div nat (grad_accum_steps A))"


definition three_batches :: "batch list" where
  "three_batches = [[[0, 1, 2]], [[1, 0, 4]], [[0, 1, 6]]]"

text \<open>The training losses written to the log by line 49, with their epochs.\<close>

fun logged_loss_of :: "('p, 'n) event \<Rightarrow> (int \<times> real) list" where
  "logged_loss_of (LogResults e l d) = [(e, l)]"
| "logged_loss_of _ = []"

definition logged_losses :: "('p, 'n) event list \<Rightarrow> (int \<times> real) list" where
  "logged_losses evs = concat (map logged_loss_of evs)"

section \<open>Specifications over runs\<close>

text \<open>
  \<open>reaches C A R (e0, bs0) (e, bs)\<close>: the epoch loop, started at the head of epoch \<open>e0\<close>
  with the local variables and state \<open>bs0\<close>, arrives at the head of epoch \<open>e\<close> with \<open>bs\<close>.
\<close>

inductive reaches ::
  "('p, 'g, 'o) collab \<Rightarrow> args \<Rightarrow> 'n runner \<Rightarrow> int \<times> 'p best \<times> ('p, 'g, 'o, 'n) state
     \<Rightarrow> int \<times> 'p best \<times> ('p, 'g, 'o, 'n) state \<Rightarrow> bool"
  for C :: "('p, 'g, 'o) collab" and A :: args and R :: "'n runner"
where
  start: "reaches C A R x x"
| step: "reaches C A R x (e, bs) \<Longrightarrow> e \<le> epochs A
          \<Longrightarrow> epoch_body C A R e bs = Inr (Continue, bs')
          \<Longrightarrow> reaches C A R x (e + 1, bs')"

code_pred reaches .

text \<open>
  The best values agree with the history \<open>vs\<close> of validations: there is none and the
  values are the initial ones, or they are the epoch, distortion and model state of a
  validation whose distortion is minimal and that is the earliest with that distortion.
\<close>

definition snapshot_inv :: "'p best \<Rightarrow> (int \<times> real \<times> 'p) list \<Rightarrow> bool" where
  "snapshot_inv bv vs =
     (if vs = [] then bv = initial_best
      else \<exists>(e, d, p)\<in>set vs.
             bv = \<lparr>best_distortion = Finite d, best_epoch = e, best_model_state = Some p\<rparr>
             \<and> (\<forall>(e', d', p')\<in>set vs. d \<le> d' \<and> (d' = d \<longrightarrow> e \<le> e')))"

text \<open>
  The events \<open>evs\<close> are those of a loop that started at the head of epoch \<open>e0\<close> with best
  epoch \<open>b\<close> and saw no improvement: either it ran every epoch up to \<^verbatim>\<open>epochs\<close> and no validated
  epoch reached \<open>b + 3 * patience\<close>, or it stopped at \<open>E\<close>, the first validated epoch from
  \<open>e0\<close> on that has reached \<open>b + 3 * patience\<close>.
\<close>

definition stops_at :: "args \<Rightarrow> int \<Rightarrow> int \<Rightarrow> ('p, 'n) event list \<Rightarrow> bool" where
  "stops_at A e0 b evs =
     (case early_stops evs of
        [] \<Rightarrow> trained_epochs evs = [e0..epochs A]
              \<and> (\<forall>e\<in>set [e0..epochs A]. e mod val_every A = 0 \<longrightarrow> e < b + patience A * 3)
      | E # rest \<Rightarrow> rest = [] \<and> trained_epochs evs = [e0..E] \<and> e0 \<le> E \<and> E \<le> epochs A
              \<and> E mod val_every A = 0 \<and> b + patience A * 3 \<le> E
              \<and> (\<forall>e\<in>set [e0..E - 1]. e mod val_every A = 0 \<longrightarrow> e < b + patience A * 3))"

text \<open>The invariant of the epoch loop at the head of epoch \<open>e\<close>.\<close>

definition loop_inv :: "int \<Rightarrow> 'p best \<times> ('p, 'g, 'o, 'n) state \<Rightarrow> bool" where
  "loop_inv e bs = (snapshot_inv (fst bs) (validations (trace (snd bs)))
       \<and> (\<forall>x\<in>set (validations (trace (snd bs))). fst x < e)
       \<and> sorted_wrt (<) (map fst (validations (trace (snd bs)))))"

section \<open>Properties\<close>

subsection \<open>The evaluation pass\<close>

lemma eval_loop_closed:
  "eval_loop C p bs acc =
     (if [] \<in> set (concat bs) then Inl IndexError
      else Inr (acc @ concat (map (pair_distortions C p) bs)))"
  by (induction bs arbitrary: acc) (auto simp: last_column_def pair_distortions_def Let_def)

lemma weighted_sum:
  assumes "\<And>b. b \<in> set bs \<Longrightarrow> length (f b) = length b"
  shows "(\<Sum>b\<leftarrow>bs. real (length b) * batch_mean (f b)) = sum_list (concat (map f bs))"
  using assms
proof (induction bs)
  case Nil
  then show ?case by simp
next
  case (Cons b bs)
  have "real (length b) * batch_mean (f b) = sum_list (f b)"
    using Cons.prems[of b] by (cases "f b = []") (auto simp: batch_mean_def)
  with Cons show ?case by simp
qed

lemma length_concat_map:
  assumes "\<And>b. b \<in> set bs \<Longrightarrow> length (f b) = length b"
  shows "length (concat (map f bs)) = length (concat bs)"
  using assms by (induction bs) auto

lemma sum_lengths: "(\<Sum>b\<leftarrow>bs. real (length b)) = real (length (concat bs))"
  by (induction bs) auto

lemma evaluate_closed:
  assumes "[] \<notin> set (concat eval_split)"
    and "concat (map (pair_distortions C (model s)) eval_split) \<noteq> []"
  shows "evaluate C eval_split s
           = Inr (sum_list (concat (map (pair_distortions C (model s)) eval_split))
                    / real (length (concat (map (pair_distortions C (model s)) eval_split))),
                  s\<lparr>training := False\<rparr>)"
  unfolding evaluate_def Let_def eval_loop_closed mean_def
  using assms by simp

text \<open>
  C7. When the metric gives one distortion for each pair of a batch, the split has at
  least one pair and every row has a last column, the evaluation pass returns, without
  touching the model, the sum of the distortions of all pairs divided by the number of
  pairs; this is the mean of the batch means weighted by the batch sizes, whatever the
  sizes of the batches.
\<close>

theorem evaluate_mean:
  assumes per_pair: "\<forall>b\<in>set eval_split. length (pair_distortions C (model s) b) = length b"
    and pairs: "concat eval_split \<noteq> []"
    and cols: "[] \<notin> set (concat eval_split)"
  shows "\<exists>d s'. evaluate C eval_split s = Inr (d, s') \<and> model s' = model s
           \<and> d = sum_list (concat (map (pair_distortions C (model s)) eval_split))
                   / real (length (concat eval_split))
           \<and> d = (\<Sum>b\<leftarrow>eval_split. real (length b) * batch_mean (pair_distortions C (model s) b))
                   / (\<Sum>b\<leftarrow>eval_split. real (length b))"
proof -
  let ?f = "pair_distortions C (model s)"
  have len: "\<And>b. b \<in> set eval_split \<Longrightarrow> length (?f b) = length b"
    using per_pair by simp
  have tot: "length (concat (map ?f eval_split)) = length (concat eval_split)"
    by (rule length_concat_map) (rule len)
  have ne: "concat (map ?f eval_split) \<noteq> []"
    using tot pairs by (metis length_0_conv)
  have w: "(\<Sum>b\<leftarrow>eval_split. real (length b) * batch_mean (?f b)) = sum_list (concat (map ?f eval_split))"
    by (rule weighted_sum) (rule len)
  show ?thesis
    unfolding evaluate_closed[OF cols ne] w sum_lengths tot by simp
qed

theorem evaluate_mean_witness:
  "\<exists>d s'. evaluate toy uneven_split (toy_state 3) = Inr (d, s')
     \<and> d = (1 / 2 + 1 / 4 + 5 / 8) / 3
     \<and> d = (2 * ((1 / 2 + 1 / 4) / 2) + 1 * (5 / 8)) / (2 + 1)"
proof -
  have "\<forall>b\<in>set uneven_split. length (pair_distortions toy (model (toy_state 3)) b) = length b"
    by (simp add: pair_distortions_def toy_def uneven_split_def)
  moreover have "concat uneven_split \<noteq> []" and "[] \<notin> set (concat uneven_split)"
    by (simp_all add: uneven_split_def)
  ultimately obtain d s' where ev: "evaluate toy uneven_split (toy_state 3) = Inr (d, s')"
    and d1: "d = sum_list (concat (map (pair_distortions toy (model (toy_state 3))) uneven_split))
                   / real (length (concat uneven_split))"
    and d2: "d = (\<Sum>b\<leftarrow>uneven_split. real (length b) * batch_mean (pair_distortions toy (model (toy_state 3)) b))
                   / (\<Sum>b\<leftarrow>uneven_split. real (length b))"
    using evaluate_mean[of uneven_split toy "toy_state 3"] by blast
  have "d = (1 / 2 + 1 / 4 + 5 / 8) / 3"
    using d1 by (simp add: pair_distortions_def toy_def uneven_split_def toy_state_def)
  moreover have "d = (2 * ((1 / 2 + 1 / 4) / 2) + 1 * (5 / 8)) / (2 + 1)"
    using d2 by (simp add: pair_distortions_def batch_mean_def toy_def uneven_split_def toy_state_def)
  ultimately show ?thesis using ev by blast
qed

subsection \<open>The exported record\<close>

text \<open>
  C8. The record appended to the results file has, as dimensionality, \<open>d * (d + 1)\<close> for
  the manifold kinds \<^verbatim>\<open>upper\<close> and \<^verbatim>\<open>bounded\<close> (the kinds whose points are symmetric
  matrices) and \<open>d\<close> for every other kind, and as distortion and mAP the final values
  times 100.
\<close>

theorem export_results_record:
  "trace (export_results A avg_distortion avg_precision s)
     = trace s @ [ExportResults (results_file A) (export_record A avg_distortion avg_precision)]
   \<and> res_dims (export_record A avg_distortion avg_precision)
       = (if args_model A = ''upper'' \<or> args_model A = ''bounded''
          then dims A * (dims A + 1) else dims A)
   \<and> res_distortion (export_record A avg_distortion avg_precision) = avg_distortion * 100
   \<and> res_mAP (export_record A avg_distortion avg_precision) = avg_precision * 100
   \<and> res_manifold (export_record A avg_distortion avg_precision) = args_model A"
  by (simp add: export_results_def export_record_def emit_def Let_def)

subsection \<open>The batch loop\<close>

lemma updates_append [simp]: "updates (xs @ ys) = updates xs @ updates ys"
  by (simp add: updates_def)

lemma losses_append [simp]: "losses (xs @ ys) = losses xs @ losses ys"
  by (simp add: losses_def)

lemma updates_step_events [simp]: "updates (step_events A i) = step_events A i"
  by (simp add: updates_def step_events_def)

lemma losses_step_events [simp]: "losses (step_events A i) = []"
  by (auto simp: losses_def step_events_def)

lemma losses_LossComputed: "losses (LossComputed l # evs) = l # losses evs"
  by (simp add: losses_def)

lemma batch_body_Inr:
  assumes "batch_body C A step b (lo, gn, s) = Inr (lo', gn', s')"
  shows "grad_accum_steps A \<noteq> 0"
    and "\<exists>l. trace s' = trace s @ LossComputed l # step_events A step
           \<and> lo' = lo + l / real_of_int (grad_accum_steps A)"
    and "training s' = training s"
    and "(int step + 1) mod grad_accum_steps A \<noteq> 0 \<Longrightarrow> model s' = model s \<and> opt s' = opt s"
  using assms
  by (auto simp: batch_body_def Let_def emit_def step_events_def split: sum.splits if_splits)


lemma batch_loop_trace:
  assumes "batch_loop C A step bs (lo, gn, s) = Inr (lo', gn', s')"
  shows "\<exists>evs. trace s' = trace s @ evs
           \<and> updates evs = concat (map (step_events A) [step..<step + length bs])
           \<and> length (losses evs) = length bs
           \<and> lo' = lo + (\<Sum>l\<leftarrow>losses evs. l / real_of_int (grad_accum_steps A))
           \<and> list_all is_batch_event evs"
  using assms
proof (induction bs arbitrary: step lo gn s)
  case Nil
  then show ?case by (simp add: updates_def losses_def)
next
  case (Cons b bs)
  from Cons.prems obtain lo1 gn1 s1 where
    b1: "batch_body C A step b (lo, gn, s) = Inr (lo1, gn1, s1)" and
    b2: "batch_loop C A (Suc step) bs (lo1, gn1, s1) = Inr (lo', gn', s')"
    by (auto split: sum.splits)
  from batch_body_Inr(2)[OF b1] obtain l where
    t1: "trace s1 = trace s @ LossComputed l # step_events A step" and
    l1: "lo1 = lo + l / real_of_int (grad_accum_steps A)" by blast
  from Cons.IH[OF b2] obtain evs where
    t2: "trace s' = trace s1 @ evs" and
    u2: "updates evs = concat (map (step_events A) [Suc step..<Suc step + length bs])" and
    n2: "length (losses evs) = length bs" and
    l2: "lo' = lo1 + (\<Sum>l\<leftarrow>losses evs. l / real_of_int (grad_accum_steps A))" and
    a2: "list_all is_batch_event evs" by blast
  let ?evs = "LossComputed l # step_events A step @ evs"
  have "trace s' = trace s @ ?evs" using t1 t2 by simp
  moreover have "updates ?evs = concat (map (step_events A) [step..<step + length (b # bs)])"
  proof -
    have e1: "[step..<step + length (b # bs)] = step # [Suc step..<step + length (b # bs)]"
      by (rule upt_conv_Cons) simp
    have e2: "Suc step + length bs = step + length (b # bs)"
      by simp
    have u3: "updates evs = concat (map (step_events A) [Suc step..<step + length (b # bs)])"
      using u2 unfolding e2 .
    have "updates ?evs = step_events A step @ updates evs"
      by (simp add: updates_def step_events_def)
    then show ?thesis unfolding e1 u3 by simp
  qed
  moreover have le: "losses ?evs = l # losses evs"
    using losses_append[of "[LossComputed l]" "step_events A step @ evs"]
    by (simp add: losses_LossComputed)
  have "length (losses ?evs) = length (b # bs)"
    unfolding le using n2 by simp
  moreover have "lo' = lo + (\<Sum>l\<leftarrow>losses ?evs. l / real_of_int (grad_accum_steps A))"
    unfolding le using l1 l2 by simp
  moreover have "list_all is_batch_event ?evs"
    using a2 by (simp add: step_events_def)
  ultimately show ?case by blast
qed





lemma train_epoch_Inr:
  assumes "train_epoch C A bs e s = Inr (v, s')"
  shows "\<exists>lo gr s2. batch_loop C A 0 bs (0, 0, epoch_start C s) = Inr (lo, gr, s2)
           \<and> v = lo / real (length bs)
           \<and> s' = emit [Scalar ''grad_norm/avg'' (gr / real (length bs)) e] s2"
    and "bs \<noteq> []"
    and "fst (check_all_points C (model s))"
  using assms
  by (auto simp: train_epoch_def check_points_in_manifold_def epoch_start_def Let_def
           split: sum.splits if_splits prod.splits)

lemma trailing_window:
  assumes G: "0 < grad_accum_steps A"
    and lo: "complete_windows A n \<le> i" and hi: "i < n"
  shows "(int i + 1) mod grad_accum_steps A \<noteq> 0"
proof
  let ?G = "grad_accum_steps A"
  assume "(int i + 1) mod ?G = 0"
  then obtain k where k: "int i + 1 = ?G * k" by (auto simp: mod_eq_0_iff_dvd)
  have cw: "int (complete_windows A n) = ?G * (int n div ?G)"
    using G by (simp add: complete_windows_def zdiv_int)
  have "?G * (int n div ?G) < ?G * k" using lo cw k by linarith
  then have 1: "int n div ?G < k" using G by (simp add: mult_less_cancel_left_pos)
  have "?G * k \<le> int n" using hi k by linarith
  then have "(?G * k) div ?G \<le> int n div ?G" using G by (intro zdiv_mono1) auto
  then have "k \<le> int n div ?G" using G by simp
  with 1 show False by simp
qed




subsection \<open>One iteration of the epoch loop\<close>

lemma proj_Nil [simp]:
  "saves [] = []" "validations [] = []" "early_stops [] = []" "exports [] = []"
  "train_losses [] = []" "logged_losses [] = []" "losses [] = []" "trained_epochs [] = []"
  by (simp_all add: saves_def validations_def early_stops_def exports_def train_losses_def
      logged_losses_def losses_def trained_epochs_def)

lemma proj_Cons [simp]:
  "saves (ev # evs) = saved ev @ saves evs"
  "validations (ev # evs) = validated ev @ validations evs"
  "early_stops (ev # evs) = stopped ev @ early_stops evs"
  "exports (ev # evs) = exported ev @ exports evs"
  "train_losses (ev # evs) = train_loss_of ev @ train_losses evs"
  "logged_losses (ev # evs) = logged_loss_of ev @ logged_losses evs"
  "losses (ev # evs) = loss_of ev @ losses evs"
  by (simp_all add: saves_def validations_def early_stops_def exports_def train_losses_def
      logged_losses_def losses_def)

lemma proj_append [simp]:
  "saves (xs @ ys) = saves xs @ saves ys"
  "validations (xs @ ys) = validations xs @ validations ys"
  "early_stops (xs @ ys) = early_stops xs @ early_stops ys"
  "exports (xs @ ys) = exports xs @ exports ys"
  "train_losses (xs @ ys) = train_losses xs @ train_losses ys"
  "logged_losses (xs @ ys) = logged_losses xs @ logged_losses ys"
  "trained_epochs (xs @ ys) = trained_epochs xs @ trained_epochs ys"
  by (simp_all add: saves_def validations_def early_stops_def exports_def train_losses_def
      logged_losses_def trained_epochs_def)

lemma batch_events_quiet:
  assumes "list_all is_batch_event evs"
  shows "saves evs = []" "validations evs = []" "early_stops evs = []" "exports evs = []"
    "train_losses evs = []" "logged_losses evs = []"
proof -
  have q: "saved ev = [] \<and> validated ev = [] \<and> stopped ev = [] \<and> exported ev = []
           \<and> train_loss_of ev = [] \<and> logged_loss_of ev = []" if "is_batch_event ev" for ev :: "('a, 'b) event"
    using that by (cases ev) simp_all
  show "saves evs = []" "validations evs = []" "early_stops evs = []" "exports evs = []"
    "train_losses evs = []" "logged_losses evs = []"
    using assms by (induction evs; simp add: q)+
qed

text \<open>The effect of a completed training pass on everything but the batch events.\<close>

lemma train_epoch_frame:
  assumes "train_epoch C A bs e s = Inr (v, s')"
  shows "\<exists>evs. trace s' = trace s @ evs
           \<and> saves evs = [] \<and> validations evs = [] \<and> early_stops evs = [] \<and> exports evs = []
           \<and> train_losses evs = [] \<and> logged_losses evs = []
           \<and> length (losses evs) = length bs
           \<and> v = (\<Sum>l\<leftarrow>losses evs. l / real_of_int (grad_accum_steps A)) / real (length bs)"
proof -
  from train_epoch_Inr(1)[OF assms] obtain lo gr s2 where
    bl: "batch_loop C A 0 bs (0, 0, epoch_start C s) = Inr (lo, gr, s2)" and
    v: "v = lo / real (length bs)" and
    s': "s' = emit [Scalar ''grad_norm/avg'' (gr / real (length bs)) e] s2"
    by blast
  from batch_loop_trace[OF bl] obtain evs where
    t: "trace s2 = trace (epoch_start C s) @ evs" and
    n: "length (losses evs) = length bs" and
    lo: "lo = 0 + (\<Sum>l\<leftarrow>losses evs. l / real_of_int (grad_accum_steps A))" and
    q: "list_all is_batch_event evs"
    by blast
  let ?evs = "[ManifoldCheck, ModelZeroGrad, OptimizerZeroGrad] @ evs
                @ [Scalar ''grad_norm/avg'' (gr / real (length bs)) e]"
  have "trace s' = trace s @ ?evs"
    using t s' by (simp add: emit_def epoch_start_def)
  moreover have "saves ?evs = []" "validations ?evs = []" "early_stops ?evs = []"
    "exports ?evs = []" "train_losses ?evs = []" "logged_losses ?evs = []"
    using batch_events_quiet[OF q] by simp_all
  moreover have "losses ?evs = losses evs"
    by simp
  ultimately have "trace s' = trace s @ ?evs
           \<and> saves ?evs = [] \<and> validations ?evs = [] \<and> early_stops ?evs = [] \<and> exports ?evs = []
           \<and> train_losses ?evs = [] \<and> logged_losses ?evs = []
           \<and> length (losses ?evs) = length bs
           \<and> v = (\<Sum>l\<leftarrow>losses ?evs. l / real_of_int (grad_accum_steps A)) / real (length bs)"
    using n lo v by simp
  then show ?thesis by (rule exI)
qed

lemma evaluate_Inr:
  assumes "evaluate C vs s = Inr (d, s1)"
  shows "s1 = s\<lparr>training := False\<rparr>"
  using assms by (auto simp: evaluate_def Let_def split: sum.splits)

lemma validation_block_Inr:
  assumes "validation_block C A R e l (bv, s) = Inr (fl, bv', s')"
  shows "\<exists>d evs. evaluate C (validate R) s = Inr (d, s\<lparr>training := False\<rparr>)
           \<and> trace s' = trace s @ evs \<and> model s' = model s \<and> grad s' = grad s
           \<and> validations evs = [(e, d, model s)]
           \<and> bv' = (if float_lt d (best_distortion bv)
                    then \<lparr>best_distortion = Finite d, best_epoch = e, best_model_state = Some (model s)\<rparr>
                    else bv)
           \<and> (fl = Break) = (patience A * 3 \<le> e - best_epoch bv')
           \<and> early_stops evs = (if fl = Break then [e] else [])
           \<and> saves evs = [] \<and> exports evs = [] \<and> train_losses evs = [] \<and> losses evs = []
           \<and> logged_losses evs = [(e, l)]"
proof -
  have vb: "validation_block C A R e l (bv, s) =
     (case evaluate C (validate R) s of
          Inl e \<Rightarrow> Inl e
        | Inr (distortion, s1) \<Rightarrow>
            let s2 = emit [Validated e distortion (model s1),
                           Scalar ''val/distortion'' distortion e,
                           LogResults e l (distortion * 100),
                           SchedulerStep distortion]
                       (s1\<lparr>opt := scheduler_step C distortion (opt s1)\<rparr>);
                improved = float_lt distortion (best_distortion bv);
                bv' = (if improved
                       then \<lparr>best_distortion = Finite distortion, best_epoch = e,
                             best_model_state = Some (model s2)\<rparr>
                       else bv);
                s3 = (if improved then emit [BestVal (distortion * 100) e] s2 else s2)
            in if e - best_epoch bv' \<ge> patience A * 3
               then Inr (Break, bv', emit [EarlyStop e] s3)
               else Inr (Continue, bv', s3))"
    by (simp add: validation_block_def)
  from assms obtain d s1 where ev: "evaluate C (validate R) s = Inr (d, s1)"
    unfolding vb by (auto split: sum.splits)
  have s1: "s1 = s\<lparr>training := False\<rparr>" by (rule evaluate_Inr[OF ev])
  let ?s2 = "emit [Validated e d (model s), Scalar ''val/distortion'' d e,
                   LogResults e l (d * 100), SchedulerStep d]
               (s\<lparr>training := False, opt := scheduler_step C d (opt s)\<rparr>)"
  let ?imp = "float_lt d (best_distortion bv)"
  let ?bv = "if ?imp then \<lparr>best_distortion = Finite d, best_epoch = e, best_model_state = Some (model s)\<rparr> else bv"
  let ?s3 = "if ?imp then emit [BestVal (d * 100) e] ?s2 else ?s2"
  let ?brk = "patience A * 3 \<le> e - best_epoch ?bv"
  let ?evs = "[Validated e d (model s), Scalar ''val/distortion'' d e,
               LogResults e l (d * 100), SchedulerStep d]
              @ (if ?imp then [BestVal (d * 100) e] else [])
              @ (if ?brk then [EarlyStop e] else [])"
  have bv': "bv' = ?bv" and fl: "(fl = Break) = ?brk"
    and s': "s' = (if ?brk then emit [EarlyStop e] ?s3 else ?s3)"
    using assms unfolding vb ev s1 by (auto simp: Let_def emit_def split: if_splits)
  have t: "trace s' = trace s @ ?evs" "model s' = model s" "grad s' = grad s"
    unfolding s' by (simp_all add: emit_def)
  have p: "validations ?evs = [(e, d, model s)]" "saves ?evs = []" "exports ?evs = []"
    "train_losses ?evs = []" "losses ?evs = []" "logged_losses ?evs = [(e, l)]"
    "early_stops ?evs = (if ?brk then [e] else [])"
    by simp_all
  have "evaluate C (validate R) s = Inr (d, s\<lparr>training := False\<rparr>)
           \<and> trace s' = trace s @ ?evs \<and> model s' = model s \<and> grad s' = grad s
           \<and> validations ?evs = [(e, d, model s)]
           \<and> bv' = ?bv
           \<and> (fl = Break) = (patience A * 3 \<le> e - best_epoch bv')
           \<and> early_stops ?evs = (if fl = Break then [e] else [])
           \<and> saves ?evs = [] \<and> exports ?evs = [] \<and> train_losses ?evs = [] \<and> losses ?evs = []
           \<and> logged_losses ?evs = [(e, l)]"
    using ev s1 t p bv' fl by simp
  then show ?thesis by blast
qed


lemma train_scalars_proj [simp]:
  "train_losses (train_scalars C v e s) = [(e, v)]"
  "losses (train_scalars C v e s) = []"
  "saves (train_scalars C v e s) = []"
  "validations (train_scalars C v e s) = []"
  "early_stops (train_scalars C v e s) = []"
  "exports (train_scalars C v e s) = []"
  "logged_losses (train_scalars C v e s) = []"
  by (simp_all add: train_scalars_def split: option.splits)

lemma epoch_body_Inr:
  assumes "epoch_body C A R e (bv, s) = Inr (fl, bv', s')"
  shows "\<exists>v s1 evs. train_epoch C A (train R e) e s = Inr (v, s1)
      \<and> trace s' = trace s1 @ evs \<and> model s' = model s1 \<and> grad s' = grad s1
      \<and> save_epochs A \<noteq> 0 \<and> val_every A \<noteq> 0
      \<and> train_losses evs = [(e, v)] \<and> losses evs = [] \<and> exports evs = []
      \<and> saves evs = (if e mod save_epochs A = 0
                      then [(checkpoint_key A e, model s1, id2node R)] else [])
      \<and> (if e mod val_every A = 0
          then \<exists>d. validations evs = [(e, d, model s1)]
                 \<and> bv' = (if float_lt d (best_distortion bv)
                           then \<lparr>best_distortion = Finite d, best_epoch = e,
                                 best_model_state = Some (model s1)\<rparr>
                           else bv)
                 \<and> (fl = Break) = (patience A * 3 \<le> e - best_epoch bv')
                 \<and> logged_losses evs = [(e, v)]
          else validations evs = [] \<and> bv' = bv \<and> fl = Continue \<and> logged_losses evs = [])
      \<and> early_stops evs = (if fl = Break then [e] else [])"
proof -
  from assms obtain v s1 where tr: "train_epoch C A (train R e) e s = Inr (v, s1)"
    by (auto simp: epoch_body_def split: sum.splits)
  let ?s2 = "emit (train_scalars C v e s1) s1"
  let ?s3 = "if e mod save_epochs A = 0 then save_model A R e ?s2 else ?s2"
  let ?evs3 = "train_scalars C v e s1
                 @ (if e mod save_epochs A = 0
                    then [SaveModel (checkpoint_key A e) (model s1) (id2node R)] else [])"
  have nz: "save_epochs A \<noteq> 0" "val_every A \<noteq> 0"
    using assms tr by (auto simp: epoch_body_def Let_def split: if_splits)
  have s3: "trace ?s3 = trace s1 @ ?evs3" "model ?s3 = model s1" "grad ?s3 = grad s1"
    by (simp_all add: emit_def save_model_def)
  have body: "Inr (fl, bv', s') = (if e mod val_every A = 0
                 then validation_block C A R e v (bv, ?s3)
                 else Inr (Continue, bv, ?s3))"
    using assms tr nz by (simp add: epoch_body_def Let_def)
  show ?thesis
  proof (cases "e mod val_every A = 0")
    case False
    with body have r: "fl = Continue" "bv' = bv" "s' = ?s3" by simp_all
    have "train_epoch C A (train R e) e s = Inr (v, s1)
      \<and> trace s' = trace s1 @ ?evs3 \<and> model s' = model s1 \<and> grad s' = grad s1
      \<and> save_epochs A \<noteq> 0 \<and> val_every A \<noteq> 0
      \<and> train_losses ?evs3 = [(e, v)] \<and> losses ?evs3 = [] \<and> exports ?evs3 = []
      \<and> saves ?evs3 = (if e mod save_epochs A = 0
                      then [(checkpoint_key A e, model s1, id2node R)] else [])
      \<and> (validations ?evs3 = [] \<and> bv' = bv \<and> fl = Continue \<and> logged_losses ?evs3 = [])
      \<and> early_stops ?evs3 = (if fl = Break then [e] else [])"
      using tr nz r s3 by simp
    with False show ?thesis by auto
  next
    case True
    with body have vb: "validation_block C A R e v (bv, ?s3) = Inr (fl, bv', s')" by simp
    from validation_block_Inr[OF vb] obtain d evs where
      t: "trace s' = trace ?s3 @ evs" "model s' = model ?s3" "grad s' = grad ?s3" and
      va: "validations evs = [(e, d, model ?s3)]" and
      b: "bv' = (if float_lt d (best_distortion bv)
                 then \<lparr>best_distortion = Finite d, best_epoch = e, best_model_state = Some (model ?s3)\<rparr>
                 else bv)" and
      f: "(fl = Break) = (patience A * 3 \<le> e - best_epoch bv')" and
      es: "early_stops evs = (if fl = Break then [e] else [])" and
      q: "saves evs = []" "exports evs = []" "train_losses evs = []" "losses evs = []" and
      lg: "logged_losses evs = [(e, v)]"
      by blast
    let ?evs = "?evs3 @ evs"
    have "train_epoch C A (train R e) e s = Inr (v, s1)
      \<and> trace s' = trace s1 @ ?evs \<and> model s' = model s1 \<and> grad s' = grad s1
      \<and> save_epochs A \<noteq> 0 \<and> val_every A \<noteq> 0
      \<and> train_losses ?evs = [(e, v)] \<and> losses ?evs = [] \<and> exports ?evs = []
      \<and> saves ?evs = (if e mod save_epochs A = 0
                      then [(checkpoint_key A e, model s1, id2node R)] else [])
      \<and> (validations ?evs = [(e, d, model s1)]
                 \<and> bv' = (if float_lt d (best_distortion bv)
                           then \<lparr>best_distortion = Finite d, best_epoch = e,
                                 best_model_state = Some (model s1)\<rparr>
                           else bv)
                 \<and> (fl = Break) = (patience A * 3 \<le> e - best_epoch bv')
                 \<and> logged_losses ?evs = [(e, v)])
      \<and> early_stops ?evs = (if fl = Break then [e] else [])"
      using tr nz t va b f es q lg s3 by simp
    with True show ?thesis by auto
  qed
qed

lemma sum_list_scaled:
  "(\<Sum>l\<leftarrow>ls. l / c) / n = batch_mean ls / (c :: real)" if "n = real (length ls)"
proof -
  have "(\<Sum>l\<leftarrow>ls. l / c) = sum_list ls / c"
    by (induction ls) (simp_all add: add_divide_distrib)
  then show ?thesis using that by (simp add: batch_mean_def)
qed

lemma epoch_body_trace:
  assumes "epoch_body C A R e (bv, s) = Inr (fl, bv', s')"
  shows "\<exists>evs d. trace s' = trace s @ evs
      \<and> save_epochs A \<noteq> 0 \<and> val_every A \<noteq> 0
      \<and> trained_epochs evs = [e] \<and> exports evs = []
      \<and> length (losses evs) = length (train R e)
      \<and> train_losses evs = [(e, batch_mean (losses evs) / real_of_int (grad_accum_steps A))]
      \<and> logged_losses evs = (if e mod val_every A = 0
                              then [(e, batch_mean (losses evs) / real_of_int (grad_accum_steps A))]
                              else [])
      \<and> saves evs = (if e mod save_epochs A = 0
                      then [(checkpoint_key A e, model s', id2node R)] else [])
      \<and> validations evs = (if e mod val_every A = 0 then [(e, d, model s')] else [])
      \<and> bv' = (if e mod val_every A = 0 \<and> float_lt d (best_distortion bv)
                then \<lparr>best_distortion = Finite d, best_epoch = e, best_model_state = Some (model s')\<rparr>
                else bv)
      \<and> (fl = Break) = (e mod val_every A = 0 \<and> patience A * 3 \<le> e - best_epoch bv')
      \<and> early_stops evs = (if fl = Break then [e] else [])"
proof -
  from epoch_body_Inr[OF assms] obtain v s1 evs2 where
    tr: "train_epoch C A (train R e) e s = Inr (v, s1)" and
    t2: "trace s' = trace s1 @ evs2" and m: "model s' = model s1" and
    nz: "save_epochs A \<noteq> 0" "val_every A \<noteq> 0" and
    p2: "train_losses evs2 = [(e, v)]" "losses evs2 = []" "exports evs2 = []"
        "saves evs2 = (if e mod save_epochs A = 0
                      then [(checkpoint_key A e, model s1, id2node R)] else [])" and
    val: "if e mod val_every A = 0
          then \<exists>d. validations evs2 = [(e, d, model s1)]
                 \<and> bv' = (if float_lt d (best_distortion bv)
                           then \<lparr>best_distortion = Finite d, best_epoch = e,
                                 best_model_state = Some (model s1)\<rparr>
                           else bv)
                 \<and> (fl = Break) = (patience A * 3 \<le> e - best_epoch bv')
                 \<and> logged_losses evs2 = [(e, v)]
          else validations evs2 = [] \<and> bv' = bv \<and> fl = Continue \<and> logged_losses evs2 = []" and
    es: "early_stops evs2 = (if fl = Break then [e] else [])"
    by blast
  from train_epoch_frame[OF tr] obtain evs1 where
    t1: "trace s1 = trace s @ evs1" and
    p1: "saves evs1 = []" "validations evs1 = []" "early_stops evs1 = []" "exports evs1 = []"
        "train_losses evs1 = []" "logged_losses evs1 = []" and
    n1: "length (losses evs1) = length (train R e)" and
    v: "v = (\<Sum>l\<leftarrow>losses evs1. l / real_of_int (grad_accum_steps A)) / real (length (train R e))"
    by blast
  let ?evs = "evs1 @ evs2"
  have lo: "losses ?evs = losses evs1" using p2 by simp
  have v': "v = batch_mean (losses ?evs) / real_of_int (grad_accum_steps A)"
    unfolding lo v by (rule sum_list_scaled) (simp add: n1)
  have base: "trace s' = trace s @ ?evs" "trained_epochs ?evs = [e]" "exports ?evs = []"
    "length (losses ?evs) = length (train R e)"
    "train_losses ?evs = [(e, batch_mean (losses ?evs) / real_of_int (grad_accum_steps A))]"
    "saves ?evs = (if e mod save_epochs A = 0 then [(checkpoint_key A e, model s', id2node R)] else [])"
    "early_stops ?evs = (if fl = Break then [e] else [])"
    using t1 t2 p1 p2 n1 es m v'[symmetric] by (simp_all add: trained_epochs_def)
  show ?thesis
  proof (cases "e mod val_every A = 0")
    case True
    with val obtain d where
      d: "validations evs2 = [(e, d, model s1)]"
         "bv' = (if float_lt d (best_distortion bv)
                 then \<lparr>best_distortion = Finite d, best_epoch = e, best_model_state = Some (model s1)\<rparr>
                 else bv)"
         "(fl = Break) = (patience A * 3 \<le> e - best_epoch bv')"
         "logged_losses evs2 = [(e, v)]"
      by auto
    have "validations ?evs = [(e, d, model s')]"
      "logged_losses ?evs = [(e, batch_mean (losses ?evs) / real_of_int (grad_accum_steps A))]"
      using d p1 m v'[symmetric] by simp_all
    with base nz d True m show ?thesis
      by (intro exI[of _ ?evs] exI[of _ d]) simp
  next
    case False
    with val have "validations evs2 = []" "bv' = bv" "fl = Continue" "logged_losses evs2 = []"
      by simp_all
    with base nz False p1 show ?thesis
      by (intro exI[of _ ?evs] exI[of _ 0]) simp
  qed
qed

subsection \<open>The recorded training loss\<close>

text \<open>
  C6, as the code has it. The value written to \<^verbatim>\<open>train/loss\<close> for an epoch (and logged when
  the epoch is validated) is the sum over the batches of the loss divided by
  \<^verbatim>\<open>grad_accum_steps\<close>, divided by the number of batches: the mean of the batch losses
  divided by \<^verbatim>\<open>grad_accum_steps\<close>. It is the mean of the batch losses when
  \<^verbatim>\<open>grad_accum_steps\<close> is 1.
\<close>

theorem recorded_train_loss:
  assumes "epoch_body C A R e (bv, s) = Inr (fl, bv', s')"
  shows "\<exists>evs. trace s' = trace s @ evs
      \<and> length (losses evs) = length (train R e)
      \<and> train_losses evs = [(e, batch_mean (losses evs) / real_of_int (grad_accum_steps A))]
      \<and> logged_losses evs = (if e mod val_every A = 0
                              then [(e, batch_mean (losses evs) / real_of_int (grad_accum_steps A))]
                              else [])
      \<and> (grad_accum_steps A = 1 \<longrightarrow> train_losses evs = [(e, batch_mean (losses evs))])"
proof -
  from epoch_body_trace[OF assms] obtain evs where
    "trace s' = trace s @ evs" "length (losses evs) = length (train R e)"
    "train_losses evs = [(e, batch_mean (losses evs) / real_of_int (grad_accum_steps A))]"
    "logged_losses evs = (if e mod val_every A = 0
                              then [(e, batch_mean (losses evs) / real_of_int (grad_accum_steps A))]
                              else [])"
    by blast
  then show ?thesis by (intro exI[of _ evs]) simp
qed

lemmas toy_unfold = epoch_body_def train_epoch_def check_points_in_manifold_def
      batch_body_def last_column_def evaluate_def mean_def validation_block_def save_model_def
      train_scalars_def emit_def toy_def toy_args_def toy_runner_def toy_state_def initial_best_def
      Let_def

text \<open>
  C6 as stated fails: with two batches of losses 2 and 4 and \<^verbatim>\<open>grad_accum_steps = 2\<close> the
  recorded value is 3/2, the mean of the batch losses is 3.
\<close>

theorem recorded_train_loss_counterexample:
  "train_losses (trace (snd (snd (projr (epoch_body toy toy_args toy_runner 1 (initial_best, toy_state 0))))))
     = [(1, 3 / 2)]
   \<and> losses (trace (snd (snd (projr (epoch_body toy toy_args toy_runner 1 (initial_best, toy_state 0))))))
     = [2, 4]
   \<and> batch_mean [2, 4] = 3"
  by (simp add: toy_unfold batch_mean_def)

theorem recorded_train_loss_witness:
  "\<exists>fl bv' s'. epoch_body toy toy_args toy_runner 1 (initial_best, toy_state 0) = Inr (fl, bv', s')
     \<and> train_losses (trace s') = [(1, batch_mean (losses (trace s')) / 2)]"
proof -
  obtain fl bv' s' where
    r: "epoch_body toy toy_args toy_runner 1 (initial_best, toy_state 0) = Inr (fl, bv', s')"
    by (simp add: toy_unfold)
  from recorded_train_loss[OF r] obtain evs where
    "trace s' = trace (toy_state 0) @ evs"
    "train_losses evs = [(1, batch_mean (losses evs) / real_of_int (grad_accum_steps toy_args))]"
    by blast
  then have "train_losses (trace s') = [(1, batch_mean (losses (trace s')) / 2)]"
    by (simp add: toy_state_def toy_args_def)
  with r show ?thesis by blast
qed

subsection \<open>The epoch loop\<close>

lemma reaches_loop:
  assumes "reaches C A R (e0, bs0) (e, bs)"
  shows "epoch_loop C A R e0 bs0 = epoch_loop C A R e bs"
  using assms
proof (induction "(e0, bs0)" "(e, bs)" arbitrary: e bs rule: reaches.induct)
  case start
  then show ?case by simp
next
  case (step e1 bs1 bs')
  have "epoch_loop C A R e1 bs1 = epoch_loop C A R (e1 + 1) bs'"
    using step(3,4) by (subst epoch_loop.simps) simp
  with step show ?case by simp
qed

lemma epoch_loop_induct_Inr [consumes 1, case_names past break continue]:
  assumes "epoch_loop C A R e bs = Inr bs'"
    and "\<And>e bs. epochs A < e \<Longrightarrow> P e bs bs"
    and "\<And>e bs bs'. e \<le> epochs A \<Longrightarrow> epoch_body C A R e bs = Inr (Break, bs') \<Longrightarrow> P e bs bs'"
    and "\<And>e bs bs1 bs'. e \<le> epochs A \<Longrightarrow> epoch_body C A R e bs = Inr (Continue, bs1)
            \<Longrightarrow> epoch_loop C A R (e + 1) bs1 = Inr bs' \<Longrightarrow> P (e + 1) bs1 bs' \<Longrightarrow> P e bs bs'"
  shows "P e bs bs'"
  using assms(1)
proof (induction "nat (epochs A + 1 - e)" arbitrary: e bs)
  case 0
  then have "epochs A < e" by simp
  with 0 assms(2) show ?case by (simp add: epoch_loop.simps)
next
  case (Suc n)
  then have le: "e \<le> epochs A" by simp
  from Suc.prems le obtain fl bs1 where body: "epoch_body C A R e bs = Inr (fl, bs1)"
    by (subst (asm) epoch_loop.simps) (auto split: sum.splits)
  show ?case
  proof (cases fl)
    case Break
    with Suc.prems le body have "bs' = bs1" by (subst (asm) epoch_loop.simps) simp
    with assms(3)[OF le] body Break show ?thesis by simp
  next
    case Continue
    with Suc.prems le body have l: "epoch_loop C A R (e + 1) bs1 = Inr bs'"
      by (subst (asm) epoch_loop.simps) simp
    have "n = nat (epochs A + 1 - (e + 1))" using Suc(2) by simp
    from Suc(1)[OF this l] assms(4)[OF le _ l] body Continue show ?thesis by simp
  qed
qed

lemma snapshot_step:
  assumes inv: "snapshot_inv bv (validations (trace s))"
    and lt: "\<forall>x\<in>set (validations (trace s)). fst x < e"
    and body: "epoch_body C A R e (bv, s) = Inr (fl, bv', s')"
  shows "snapshot_inv bv' (validations (trace s'))"
    and "\<forall>x\<in>set (validations (trace s')). fst x < e + 1"
proof -
  let ?vs = "validations (trace s)"
  from epoch_body_trace[OF body] obtain evs d where
    t: "trace s' = trace s @ evs" and
    va: "validations evs = (if e mod val_every A = 0 then [(e, d, model s')] else [])" and
    b: "bv' = (if e mod val_every A = 0 \<and> float_lt d (best_distortion bv)
                then \<lparr>best_distortion = Finite d, best_epoch = e, best_model_state = Some (model s')\<rparr>
                else bv)"
    by blast
  have vs': "validations (trace s') = ?vs @ (if e mod val_every A = 0 then [(e, d, model s')] else [])"
    using t va by simp
  show "\<forall>x\<in>set (validations (trace s')). fst x < e + 1"
    using lt vs' by (auto split: if_splits)
  show "snapshot_inv bv' (validations (trace s'))"
  proof (cases "e mod val_every A = 0")
    case False
    with vs' b inv show ?thesis by simp
  next
    case True
    then have vs'': "validations (trace s') = ?vs @ [(e, d, model s')]" using vs' by simp
    show ?thesis
    proof (cases "?vs = []")
      case True
      with inv have "bv = initial_best" by (simp add: snapshot_inv_def)
      then have "bv' = \<lparr>best_distortion = Finite d, best_epoch = e, best_model_state = Some (model s')\<rparr>"
        using b \<open>e mod val_every A = 0\<close> by (simp add: initial_best_def)
      with True vs'' show ?thesis by (simp add: snapshot_inv_def)
    next
      case False
      with inv obtain e0 d0 p0 where
        m: "(e0, d0, p0) \<in> set ?vs" and
        bv: "bv = \<lparr>best_distortion = Finite d0, best_epoch = e0, best_model_state = Some p0\<rparr>" and
        least: "\<forall>(e', d', p')\<in>set ?vs. d0 \<le> d' \<and> (d' = d0 \<longrightarrow> e0 \<le> e')"
        by (auto simp: snapshot_inv_def)
      have e0: "e0 < e" using lt m by force
      show ?thesis
      proof (cases "d < d0")
        case True
        then have "bv' = \<lparr>best_distortion = Finite d, best_epoch = e, best_model_state = Some (model s')\<rparr>"
          using b bv \<open>e mod val_every A = 0\<close> by simp
        moreover have "\<forall>(e', d', p')\<in>set (?vs @ [(e, d, model s')]). d \<le> d' \<and> (d' = d \<longrightarrow> e \<le> e')"
          using least True by fastforce
        ultimately show ?thesis unfolding vs'' snapshot_inv_def by auto
      next
        case False
        then have "bv' = bv" using b bv by simp
        moreover have "\<forall>(e', d', p')\<in>set (?vs @ [(e, d, model s')]). d0 \<le> d' \<and> (d' = d0 \<longrightarrow> e0 \<le> e')"
          using least False e0 by fastforce
        ultimately show ?thesis unfolding vs'' snapshot_inv_def using m bv by auto
      qed
    qed
  qed
qed

lemma sorted_step:
  assumes "sorted_wrt (<) (map fst (validations (trace s)))"
    and lt: "\<forall>x\<in>set (validations (trace s)). fst x < e"
    and body: "epoch_body C A R e (bv, s) = Inr (fl, bv', s')"
  shows "sorted_wrt (<) (map fst (validations (trace s')))"
proof -
  from epoch_body_trace[OF body] obtain evs d where
    "trace s' = trace s @ evs"
    "validations evs = (if e mod val_every A = 0 then [(e, d, model s')] else [])"
    by blast
  then have "validations (trace s') = validations (trace s) @ (if e mod val_every A = 0 then [(e, d, model s')] else [])"
    by simp
  with assms(1) lt show ?thesis by (auto simp: sorted_wrt_append)
qed

lemma loop_inv_step:
  assumes "loop_inv e bs" and "epoch_body C A R e bs = Inr (fl, bs')"
  shows "loop_inv (e + 1) bs'"
  using assms snapshot_step[of "fst bs" "snd bs" e C A R fl "fst bs'" "snd bs'"]
    sorted_step[of "snd bs" e C A R "fst bs" fl "fst bs'" "snd bs'"]
  by (simp add: loop_inv_def)

lemma loop_inv_init:
  assumes "validations (trace s0) = []"
  shows "loop_inv e (initial_best, s0)"
  using assms by (simp add: loop_inv_def snapshot_inv_def)

lemma reaches_inv:
  assumes "reaches C A R (e0, bs0) (e, bs)" and "loop_inv e0 bs0"
  shows "loop_inv e bs"
  using assms
proof (induction "(e0, bs0)" "(e, bs)" arbitrary: e bs rule: reaches.induct)
  case start
  then show ?case by simp
next
  case (step e1 bs1 bs')
  then show ?case using loop_inv_step by blast
qed

lemma loop_inv_result:
  assumes "epoch_loop C A R e bs = Inr bs'" and "loop_inv e bs"
  shows "\<exists>e'. loop_inv e' bs'"
  using assms
proof (induction rule: epoch_loop_induct_Inr)
  case (past e bs)
  then show ?case by blast
next
  case (break e bs bs')
  then show ?case using loop_inv_step by blast
next
  case (continue e bs bs1 bs')
  then show ?case using loop_inv_step by blast
qed

text \<open>
  C2. At every head of the epoch loop and when the loop ends, the best distortion, the
  best epoch and the snapshot are those of the validated epoch with the least distortion
  so far, the earliest one among equals (the validated epochs increase strictly, so it
  is unique); before any validation they are the initial values. At a validation the
  three are replaced exactly when the new distortion is strictly less than the best one,
  and the snapshot is then the model state that was evaluated.
\<close>

theorem best_snapshot_invariant:
  assumes "validations (trace s0) = []"
  shows "(reaches C A R (1, initial_best, s0) (e, bv, s)
            \<longrightarrow> snapshot_inv bv (validations (trace s))
                \<and> sorted_wrt (<) (map fst (validations (trace s))))
       \<and> (epoch_loop C A R 1 (initial_best, s0) = Inr (bv, s)
            \<longrightarrow> snapshot_inv bv (validations (trace s))
                \<and> sorted_wrt (<) (map fst (validations (trace s))))
       \<and> (validation_block C A R e l (bv, s) = Inr (fl, bv', s')
            \<longrightarrow> (\<exists>d. validations (trace s') = validations (trace s) @ [(e, d, model s)]
                  \<and> bv' = (if float_lt d (best_distortion bv)
                            then \<lparr>best_distortion = Finite d, best_epoch = e,
                                  best_model_state = Some (model s)\<rparr>
                            else bv)))"
proof (intro conjI impI)
  assume "reaches C A R (1, initial_best, s0) (e, bv, s)"
  from reaches_inv[OF this loop_inv_init[OF assms]]
  show "snapshot_inv bv (validations (trace s))" "sorted_wrt (<) (map fst (validations (trace s)))"
    by (simp_all add: loop_inv_def)
next
  assume "epoch_loop C A R 1 (initial_best, s0) = Inr (bv, s)"
  from loop_inv_result[OF this loop_inv_init[OF assms]]
  show "snapshot_inv bv (validations (trace s))" "sorted_wrt (<) (map fst (validations (trace s)))"
    by (auto simp: loop_inv_def)
next
  assume "validation_block C A R e l (bv, s) = Inr (fl, bv', s')"
  from validation_block_Inr[OF this] obtain d evs where
    "trace s' = trace s @ evs" "validations evs = [(e, d, model s)]"
    "bv' = (if float_lt d (best_distortion bv)
            then \<lparr>best_distortion = Finite d, best_epoch = e, best_model_state = Some (model s)\<rparr>
            else bv)"
    by blast
  then show "\<exists>d. validations (trace s') = validations (trace s) @ [(e, d, model s)]
                  \<and> bv' = (if float_lt d (best_distortion bv)
                            then \<lparr>best_distortion = Finite d, best_epoch = e,
                                  best_model_state = Some (model s)\<rparr>
                            else bv)"
    by (intro exI[of _ d]) simp
qed

lemma body_best_epoch:
  assumes "epoch_body C A R e (bv, s) = Inr (fl, bv', s')"
  shows "bv' = bv \<or> best_epoch bv' = e"
proof -
  from epoch_body_trace[OF assms] obtain d where
    "bv' = (if e mod val_every A = 0 \<and> float_lt d (best_distortion bv)
                then \<lparr>best_distortion = Finite d, best_epoch = e, best_model_state = Some (model s')\<rparr>
                else bv)"
    by blast
  then show ?thesis by (simp split: if_splits)
qed

lemma best_epoch_mono:
  assumes "epoch_loop C A R e bs = Inr bs'"
  shows "best_epoch (fst bs') = best_epoch (fst bs) \<or> e \<le> best_epoch (fst bs')"
  using assms
proof (induction rule: epoch_loop_induct_Inr)
  case (past e bs)
  then show ?case by simp
next
  case (break e bs bs')
  then show ?case using body_best_epoch[of C A R e "fst bs" "snd bs" Break "fst bs'" "snd bs'"] by auto
next
  case (continue e bs bs1 bs')
  then show ?case using body_best_epoch[of C A R e "fst bs" "snd bs" Continue "fst bs1" "snd bs1"] by auto
qed

lemma stops_at_loop:
  assumes "epoch_loop C A R e bs = Inr bs'"
  shows "best_epoch (fst bs) < e \<longrightarrow> best_epoch (fst bs') = best_epoch (fst bs)
           \<longrightarrow> (\<exists>evs. trace (snd bs') = trace (snd bs) @ evs \<and> stops_at A e (best_epoch (fst bs)) evs)"
  using assms
proof (induction rule: epoch_loop_induct_Inr)
  case (past e bs)
  then have "stops_at A e (best_epoch (fst bs)) []"
    by (simp add: stops_at_def)
  then show ?case by (intro impI exI[of _ "[]"]) simp
next
  case (break e bs bs')
  show ?case
  proof (intro impI)
    assume b: "best_epoch (fst bs) < e" and same: "best_epoch (fst bs') = best_epoch (fst bs)"
    from break(2) have body: "epoch_body C A R e (fst bs, snd bs) = Inr (Break, fst bs', snd bs')" by simp
    from epoch_body_trace[OF body] obtain evs where
      t: "trace (snd bs') = trace (snd bs) @ evs" and
      tr: "trained_epochs evs = [e]" and
      br: "e mod val_every A = 0 \<and> patience A * 3 \<le> e - best_epoch (fst bs')" and
      es: "early_stops evs = [e]"
      by auto
    have "stops_at A e (best_epoch (fst bs)) evs"
      using tr br es break(1) same by (simp add: stops_at_def)
    with t show "\<exists>evs. trace (snd bs') = trace (snd bs) @ evs \<and> stops_at A e (best_epoch (fst bs)) evs"
      by blast
  qed
next
  case (continue e bs bs1 bs')
  show ?case
  proof (intro impI)
    let ?b = "best_epoch (fst bs)"
    assume b: "?b < e" and same: "best_epoch (fst bs') = ?b"
    from continue(2) have body: "epoch_body C A R e (fst bs, snd bs) = Inr (Continue, fst bs1, snd bs1)" by simp
    from body_best_epoch[OF body] best_epoch_mono[OF continue(3)] b same
    have b1: "best_epoch (fst bs1) = ?b" by auto
    from epoch_body_trace[OF body] obtain evs1 where
      t1: "trace (snd bs1) = trace (snd bs) @ evs1" and
      tr1: "trained_epochs evs1 = [e]" and
      br1: "\<not> (e mod val_every A = 0 \<and> patience A * 3 \<le> e - best_epoch (fst bs1))" and
      es1: "early_stops evs1 = []"
      by auto
    from continue(4) b b1 same obtain evs2 where
      t2: "trace (snd bs') = trace (snd bs1) @ evs2" and
      st: "stops_at A (e + 1) ?b evs2"
      by auto
    have ok: "e mod val_every A = 0 \<longrightarrow> e < ?b + patience A * 3"
      using br1 b1 by auto
    have "stops_at A e ?b (evs1 @ evs2)"
    proof (cases "early_stops evs2")
      case Nil
      with st have "trained_epochs evs2 = [e + 1..epochs A]"
        "\<forall>e'\<in>set [e + 1..epochs A]. e' mod val_every A = 0 \<longrightarrow> e' < ?b + patience A * 3"
        by (simp_all add: stops_at_def)
      moreover have "[e..epochs A] = e # [e + 1..epochs A]"
        using continue(1) by (simp add: upto_rec1)
      ultimately show ?thesis using Nil es1 tr1 ok by (simp add: stops_at_def)
    next
      case (Cons E rest)
      with st have f: "rest = []" "trained_epochs evs2 = [e + 1..E]" "e + 1 \<le> E" "E \<le> epochs A"
        "E mod val_every A = 0" "?b + patience A * 3 \<le> E"
        "\<forall>e'\<in>set [e + 1..E - 1]. e' mod val_every A = 0 \<longrightarrow> e' < ?b + patience A * 3"
        by (simp_all add: stops_at_def)
      have "[e..E] = e # [e + 1..E]" "[e..E - 1] = e # [e + 1..E - 1]"
        using f(3) by (simp_all add: upto_rec1)
      then show ?thesis using Cons es1 tr1 ok f by (simp add: stops_at_def)
    qed
    with t1 t2 show "\<exists>evs. trace (snd bs') = trace (snd bs) @ evs \<and> stops_at A e ?b evs"
      by (intro exI[of _ "evs1 @ evs2"]) simp
  qed
qed

text \<open>
  C1, as the code has it. The test of line 60 is inside the validation block. If the
  loop is at the head of epoch \<open>e0\<close>, after the best epoch \<open>b\<close>, and no later validation
  improves, then the loop stops at the first validated epoch \<open>E \<ge> e0\<close> with
  \<open>E \<ge> b + 3 * patience\<close>, when there is one up to \<^verbatim>\<open>epochs\<close>, and runs all epochs otherwise.
  It stops at \<open>b + 3 * patience\<close> exactly when that epoch is itself validated.
\<close>

theorem early_stopping_epoch:
  assumes loop: "epoch_loop C A R e0 (bv, s) = Inr (bv', s')"
    and after: "best_epoch bv < e0"
    and no_improvement: "best_epoch bv' = best_epoch bv"
  shows "\<exists>evs. trace s' = trace s @ evs
           \<and> stops_at A e0 (best_epoch bv) evs
           \<and> (e0 \<le> best_epoch bv + patience A * 3 \<and> best_epoch bv + patience A * 3 \<le> epochs A
                \<and> (best_epoch bv + patience A * 3) mod val_every A = 0
              \<longrightarrow> early_stops evs = [best_epoch bv + patience A * 3])"
proof -
  let ?b = "best_epoch bv" and ?T = "best_epoch bv + patience A * 3"
  from stops_at_loop[OF loop] after no_improvement obtain evs where
    t: "trace s' = trace s @ evs" and st: "stops_at A e0 ?b evs"
    by auto
  have exact: "early_stops evs = [?T]"
    if r: "e0 \<le> ?T" "?T \<le> epochs A" "?T mod val_every A = 0"
  proof (cases "early_stops evs")
    case Nil
    with st have all: "\<forall>e\<in>set [e0..epochs A]. e mod val_every A = 0 \<longrightarrow> e < ?T"
      by (simp add: stops_at_def)
    have "?T \<in> set [e0..epochs A]" using r(1,2) by simp
    from bspec[OF all this] r(3) have "?T < ?T" by simp
    then show ?thesis by simp
  next
    case (Cons E rest)
    with st have f: "rest = []" "?T \<le> E"
      and all: "\<forall>e\<in>set [e0..E - 1]. e mod val_every A = 0 \<longrightarrow> e < ?T"
      by (simp_all add: stops_at_def)
    have "\<not> ?T < E"
    proof
      assume "?T < E"
      then have "?T \<in> set [e0..E - 1]" using r(1) by simp
      from bspec[OF all this] r(3) have "?T < ?T" by simp
      then show False by simp
    qed
    with f(2) have "E = ?T" by simp
    with f(1) Cons show ?thesis by simp
  qed
  have "e0 \<le> ?T \<and> ?T \<le> epochs A \<and> ?T mod val_every A = 0 \<longrightarrow> early_stops evs = [?T]"
  proof (intro impI, elim conjE)
    assume "e0 \<le> ?T" "?T \<le> epochs A" "?T mod val_every A = 0"
    then show "early_stops evs = [?T]" by (rule exact)
  qed
  with t st have "trace s' = trace s @ evs \<and> stops_at A e0 ?b evs
      \<and> (e0 \<le> ?T \<and> ?T \<le> epochs A \<and> ?T mod val_every A = 0 \<longrightarrow> early_stops evs = [?T])"
    by (intro conjI)
  then show ?thesis by (rule exI)
qed

text \<open>A run of the small instance: ten epochs allowed, validation every second epoch.\<close>

lemma toy_run:
  "\<exists>bv s. epoch_loop toy toy_args toy_runner 1 (initial_best, toy_state 0) = Inr (bv, s)
      \<and> best_epoch bv = 2 \<and> best_distortion bv = Finite (1 / 2) \<and> best_model_state bv = Some 4
      \<and> early_stops (trace s) = [6]
      \<and> trained_epochs (trace s) = [1, 2, 3, 4, 5, 6]
      \<and> validations (trace s) = [(2, 1 / 2, 4), (4, 2, 8), (6, 7 / 2, 12)]
      \<and> map fst (saves (trace s)) = [''r-best-2ep'', ''r-best-4ep'', ''r-best-6ep'']"
  by (simp add: epoch_loop.simps toy_unfold trained_epochs_def checkpoint_key_def show_int_def
      show_nat.simps)

lemma toy_reach3:
  "\<exists>bs. reaches toy toy_args toy_runner (1, initial_best, toy_state 0) (3, bs)
      \<and> best_epoch (fst bs) = 2 \<and> early_stops (trace (snd bs)) = []"
proof -
  have "\<exists>bs1 bs2. epoch_body toy toy_args toy_runner 1 (initial_best, toy_state 0) = Inr (Continue, bs1)
          \<and> epoch_body toy toy_args toy_runner 2 bs1 = Inr (Continue, bs2)
          \<and> best_epoch (fst bs2) = 2 \<and> early_stops (trace (snd bs2)) = []"
    by (simp add: toy_unfold checkpoint_key_def)
  then obtain bs1 bs2 where
    b1: "epoch_body toy toy_args toy_runner 1 (initial_best, toy_state 0) = Inr (Continue, bs1)" and
    b2: "epoch_body toy toy_args toy_runner 2 bs1 = Inr (Continue, bs2)" and
    r: "best_epoch (fst bs2) = 2" "early_stops (trace (snd bs2)) = []"
    by blast
  have le: "1 \<le> epochs toy_args" "2 \<le> epochs toy_args" by (simp_all add: toy_args_def)
  have "reaches toy toy_args toy_runner (1, initial_best, toy_state 0) (1 + 1, bs1)"
    by (rule reaches.step[OF reaches.start le(1) b1])
  then have "reaches toy toy_args toy_runner (1, initial_best, toy_state 0) (2, bs1)" by simp
  from reaches.step[OF this le(2) b2]
  have "reaches toy toy_args toy_runner (1, initial_best, toy_state 0) (3, bs2)" by simp
  with r show ?thesis by blast
qed

text \<open>
  C1 as stated fails: with \<^verbatim>\<open>val_every = 2\<close> and \<^verbatim>\<open>patience = 1\<close> the best epoch is 2, no
  later validation improves, and the loop stops at epoch 6, not at epoch 5.
\<close>

theorem early_stopping_epoch_counterexample:
  "best_epoch (fst (projr (epoch_loop toy toy_args toy_runner 1 (initial_best, toy_state 0))))
     + 3 * patience toy_args = 5
   \<and> early_stops (trace (snd (projr (epoch_loop toy toy_args toy_runner 1 (initial_best, toy_state 0)))))
     = [6]
   \<and> map (\<lambda>x. (fst x, fst (snd x)))
       (validations (trace (snd (projr (epoch_loop toy toy_args toy_runner 1 (initial_best, toy_state 0))))))
     = [(2, 1 / 2), (4, 2), (6, 7 / 2)]"
proof -
  from toy_run obtain bv s where
    "epoch_loop toy toy_args toy_runner 1 (initial_best, toy_state 0) = Inr (bv, s)"
    "best_epoch bv = 2" "early_stops (trace s) = [6]"
    "validations (trace s) = [(2, 1 / 2, 4), (4, 2, 8), (6, 7 / 2, 12)]"
    by blast
  then show ?thesis by (simp add: toy_args_def)
qed

theorem early_stopping_epoch_witness:
  "\<exists>bs bv' s' evs. reaches toy toy_args toy_runner (1, initial_best, toy_state 0) (3, bs)
      \<and> epoch_loop toy toy_args toy_runner 3 bs = Inr (bv', s')
      \<and> best_epoch bv' = best_epoch (fst bs)
      \<and> trace s' = trace (snd bs) @ evs
      \<and> stops_at toy_args 3 2 evs \<and> early_stops evs = [6]"
proof -
  from toy_reach3 obtain bs where
    re: "reaches toy toy_args toy_runner (1, initial_best, toy_state 0) (3, bs)" and
    b: "best_epoch (fst bs) = 2" and e0: "early_stops (trace (snd bs)) = []"
    by blast
  from toy_run obtain bv' s' where
    l1: "epoch_loop toy toy_args toy_runner 1 (initial_best, toy_state 0) = Inr (bv', s')" and
    b': "best_epoch bv' = 2" and es: "early_stops (trace s') = [6]"
    by blast
  have l3: "epoch_loop toy toy_args toy_runner 3 (fst bs, snd bs) = Inr (bv', s')"
    using reaches_loop[OF re] l1 by simp
  have "best_epoch (fst bs) < 3" "best_epoch bv' = best_epoch (fst bs)"
    using b b' by simp_all
  from early_stopping_epoch[OF l3 this] obtain evs where
    t: "trace s' = trace (snd bs) @ evs" and st: "stops_at toy_args 3 (best_epoch (fst bs)) evs"
    by blast
  have "early_stops evs = [6]" using t es e0 by simp
  with re l3 b b' t st have "reaches toy toy_args toy_runner (1, initial_best, toy_state 0) (3, bs)
      \<and> epoch_loop toy toy_args toy_runner 3 bs = Inr (bv', s')
      \<and> best_epoch bv' = best_epoch (fst bs)
      \<and> trace s' = trace (snd bs) @ evs
      \<and> stops_at toy_args 3 2 evs \<and> early_stops evs = [6]"
    by simp
  then show ?thesis by (intro exI)
qed

theorem best_snapshot_invariant_witness:
  "\<exists>bv s. epoch_loop toy toy_args toy_runner 1 (initial_best, toy_state 0) = Inr (bv, s)
      \<and> snapshot_inv bv (validations (trace s))
      \<and> validations (trace s) = [(2, 1 / 2, 4), (4, 2, 8), (6, 7 / 2, 12)]
      \<and> bv = \<lparr>best_distortion = Finite (1 / 2), best_epoch = 2, best_model_state = Some 4\<rparr>"
proof -
  from toy_run obtain bv s where
    l: "epoch_loop toy toy_args toy_runner 1 (initial_best, toy_state 0) = Inr (bv, s)" and
    r: "best_epoch bv = 2" "best_distortion bv = Finite (1 / 2)" "best_model_state bv = Some 4"
       "validations (trace s) = [(2, 1 / 2, 4), (4, 2, 8), (6, 7 / 2, 12)]"
    by blast
  have "validations (trace (toy_state 0 :: (real, real, nat, string list) state)) = []"
    by (simp add: toy_state_def)
  from best_snapshot_invariant[OF this, of toy toy_args toy_runner] l
  have "snapshot_inv bv (validations (trace s))" by blast
  moreover have "bv = \<lparr>best_distortion = Finite (1 / 2), best_epoch = 2, best_model_state = Some 4\<rparr>"
    using r by (cases bv) simp
  ultimately show ?thesis using l r by blast
qed

subsection \<open>Gradients of a partial accumulation window\<close>

lemma batch_loop_append:
  "batch_loop C A st (xs @ ys) acc =
     (case batch_loop C A st xs acc of
        Inl e \<Rightarrow> Inl e
      | Inr acc' \<Rightarrow> batch_loop C A (st + length xs) ys acc')"
  by (induction xs arbitrary: st acc) (auto split: sum.splits)

lemma batch_loop_no_step:
  assumes "batch_loop C A st ys (lo, gr, s) = Inr (lo', gr', s')"
    and "\<forall>i\<in>{st..<st + length ys}. (int i + 1) mod grad_accum_steps A \<noteq> 0"
  shows "model s' = model s \<and> opt s' = opt s"
  using assms
proof (induction ys arbitrary: st lo gr s)
  case Nil
  then show ?case by simp
next
  case (Cons b ys)
  from Cons.prems(1) obtain lo1 gr1 s1 where
    b1: "batch_body C A st b (lo, gr, s) = Inr (lo1, gr1, s1)" and
    b2: "batch_loop C A (Suc st) ys (lo1, gr1, s1) = Inr (lo', gr', s')"
    by (auto split: sum.splits)
  have "(int st + 1) mod grad_accum_steps A \<noteq> 0"
    using Cons.prems(2) by simp
  from batch_body_Inr(4)[OF b1 this] have 1: "model s1 = model s \<and> opt s1 = opt s" .
  have "\<forall>i\<in>{Suc st..<Suc st + length ys}. (int i + 1) mod grad_accum_steps A \<noteq> 0"
    using Cons.prems(2) by simp
  from Cons.IH[OF b2 this] 1 show ?case by simp
qed

lemma epoch_start_grad [simp]: "epoch_start C (s\<lparr>grad := g\<rparr>) = epoch_start C s"
  by (simp add: epoch_start_def emit_def)

lemma train_epoch_unfold:
  "train_epoch C A bs e s =
     (if \<not> fst (check_all_points C (model s))
      then Inl (AssertionError (violation_message (snd (snd (check_all_points C (model s))))
                                  (fst (snd (check_all_points C (model s))))),
                emit [ManifoldCheck] s)
      else case batch_loop C A 0 bs (0, 0, epoch_start C s) of
             Inl err \<Rightarrow> Inl err
           | Inr (tr_loss, avg_grad_norm, s2) \<Rightarrow>
               if length bs = 0 then Inl (ZeroDivisionError, s2)
               else Inr (tr_loss / real (length bs),
                         emit [Scalar ''grad_norm/avg'' (avg_grad_norm / real (length bs)) e] s2))"
  by (simp add: train_epoch_def check_points_in_manifold_def epoch_start_def Let_def
      split: prod.splits)

lemma evaluate_grad:
  "evaluate C vs (s\<lparr>grad := g\<rparr>)
     = map_sum (\<lambda>(err, t). (err, t\<lparr>grad := g\<rparr>)) (\<lambda>(d, t). (d, t\<lparr>grad := g\<rparr>)) (evaluate C vs s)"
  by (simp add: evaluate_def Let_def split: sum.splits)

text \<open>
  C10. With a positive \<^verbatim>\<open>grad_accum_steps\<close>, the model and the optimizer after a training
  pass are those reached by the batch loop on the batches of the complete accumulation
  windows alone, started from the zeroed gradients: the batches of a trailing partial
  window only change the gradients. What a training pass returns does not depend on the
  gradients it finds (lines 80-81 zero them first), and finalization neither reads nor
  writes the gradients, so those left by a partial window are never used.
\<close>

theorem trailing_gradients_unused:
  assumes G: "0 < grad_accum_steps A"
  shows "(train_epoch C A bs e s = Inr (l, s')
            \<longrightarrow> (\<exists>lo gr s2. batch_loop C A 0 (take (complete_windows A (length bs)) bs)
                                (0, 0, epoch_start C s) = Inr (lo, gr, s2)
                    \<and> model s' = model s2 \<and> opt s' = opt s2))
       \<and> (train_epoch C A bs e (s\<lparr>grad := g\<rparr>) = Inr (l, s')) = (train_epoch C A bs e s = Inr (l, s'))
       \<and> finalize C A R (bv, s\<lparr>grad := g\<rparr>)
           = map_sum (\<lambda>(err, t). (err, t\<lparr>grad := g\<rparr>)) (\<lambda>t. t\<lparr>grad := g\<rparr>) (finalize C A R (bv, s))"
proof (intro conjI impI)
  assume run: "train_epoch C A bs e s = Inr (l, s')"
  let ?k = "complete_windows A (length bs)"
  from train_epoch_Inr(1)[OF run] obtain lo gr s3 where
    bl: "batch_loop C A 0 bs (0, 0, epoch_start C s) = Inr (lo, gr, s3)" and
    s': "s' = emit [Scalar ''grad_norm/avg'' (gr / real (length bs)) e] s3"
    by blast
  have k: "?k \<le> length bs"
    by (simp add: complete_windows_def)
  have "batch_loop C A 0 (take ?k bs @ drop ?k bs) (0, 0, epoch_start C s) = Inr (lo, gr, s3)"
    using bl by simp
  then obtain lo2 gr2 s2 where
    p1: "batch_loop C A 0 (take ?k bs) (0, 0, epoch_start C s) = Inr (lo2, gr2, s2)" and
    p2: "batch_loop C A (0 + length (take ?k bs)) (drop ?k bs) (lo2, gr2, s2) = Inr (lo, gr, s3)"
    unfolding batch_loop_append by (auto split: sum.splits)
  have len: "0 + length (take ?k bs) = ?k" "?k + length (drop ?k bs) = length bs"
    using k by simp_all
  have "\<forall>i\<in>{?k..<?k + length (drop ?k bs)}. (int i + 1) mod grad_accum_steps A \<noteq> 0"
    unfolding len
  proof
    fix i assume "i \<in> {?k..<length bs}"
    then show "(int i + 1) mod grad_accum_steps A \<noteq> 0"
      using trailing_window[OF G, of "length bs" i] by simp
  qed
  from batch_loop_no_step[OF p2[unfolded len(1)] this]
  have "model s3 = model s2 \<and> opt s3 = opt s2" .
  then have "model s' = model s2 \<and> opt s' = opt s2"
    using s' by (simp add: emit_def)
  with p1 show "\<exists>lo gr s2. batch_loop C A 0 (take ?k bs) (0, 0, epoch_start C s) = Inr (lo, gr, s2)
                    \<and> model s' = model s2 \<and> opt s' = opt s2"
    by blast
next
  show "(train_epoch C A bs e (s\<lparr>grad := g\<rparr>) = Inr (l, s')) = (train_epoch C A bs e s = Inr (l, s'))"
    by (simp add: train_epoch_unfold)
next
  show "finalize C A R (bv, s\<lparr>grad := g\<rparr>)
           = map_sum (\<lambda>(err, t). (err, t\<lparr>grad := g\<rparr>)) (\<lambda>t. t\<lparr>grad := g\<rparr>) (finalize C A R (bv, s))"
    by (simp add: finalize_def evaluate_def calculate_mAP_def export_results_def save_model_def
        emit_def Let_def split: option.splits sum.splits)
qed

theorem trailing_gradients_unused_witness:
  "\<exists>l s' lo gr s2. train_epoch toy toy_args three_batches 1 (toy_state 0) = Inr (l, s')
      \<and> batch_loop toy toy_args 0 (take 2 three_batches) (0, 0, epoch_start toy (toy_state 0))
          = Inr (lo, gr, s2)
      \<and> model s' = model s2 \<and> opt s' = opt s2 \<and> model s' = 2 \<and> grad s' = 1"
proof -
  have G: "0 < grad_accum_steps toy_args"
    by (simp add: toy_args_def)
  have "\<exists>l s'. train_epoch toy toy_args three_batches 1 (toy_state 0) = Inr (l, s')
          \<and> model s' = 2 \<and> grad s' = 1"
    by (simp add: train_epoch_def check_points_in_manifold_def batch_body_def last_column_def
        emit_def toy_def toy_args_def toy_state_def three_batches_def Let_def)
  then obtain l s' where r: "train_epoch toy toy_args three_batches 1 (toy_state 0) = Inr (l, s')"
    and m: "model s' = 2" "grad s' = 1"
    by blast
  have cw: "complete_windows toy_args (length three_batches) = 2"
    by (simp add: complete_windows_def toy_args_def three_batches_def)
  from trailing_gradients_unused[OF G, of toy three_batches 1 "toy_state 0" l s'] r
  obtain lo gr s2 where
    "batch_loop toy toy_args 0 (take (complete_windows toy_args (length three_batches)) three_batches)
       (0, 0, epoch_start toy (toy_state 0)) = Inr (lo, gr, s2)"
    "model s' = model s2" "opt s' = opt s2"
    by blast
  with r m cw show ?thesis by auto
qed

end
